theory Spec2Isabelle
  imports Complex_Main "HOL-Library.Sublist" "HOL-Library.Stream" "HOL-Library.AList"
begin

section \<open>The experiment runner (src/experiments/runner.js)\<close>

text \<open>
  The runner measures two prompt representations of a small catalog of physics problems.
  This theory embeds its pure core: the evaluation helpers \<open>extractFinalNumeric\<close> and
  \<open>isWithinTolerance\<close>, the prompt builders, the dry-run synthesizer, the trial loop
  \<open>runTrials\<close> and the summary function \<open>aggregate\<close>. The command line, the files that
  \<open>main\<close> writes and the second program of the source file (a number guessing game for
  the browser) are not part of it.

  Numbers. A JavaScript number is an IEEE double. The model uses \<open>real\<close> and does not
  round after each operation; a result that is not a finite double (NaN from \<open>0 / 0\<close>,
  an overflow of \<open>Number(...)\<close>) is modelled explicitly at the places where the code can
  produce one. A nullable number is a \<open>real option\<close>, \<open>None\<close> being \<open>null\<close>.
\<close>

text \<open>
  Strings. A JavaScript string is a sequence of UTF-16 code units; the model keeps the
  code units as natural numbers. \<open>js\<close> turns an ASCII literal into its code units.
\<close>

type_synonym jsstring = "nat list"

definition js :: "string \<Rightarrow> jsstring" where
  "js s = map of_char s"

text \<open>A number that may be NaN (the result of \<open>0 / 0\<close>) or infinite (an overflow).\<close>

datatype jsnum = Num real | NaN | PosInfinity | NegInfinity

text \<open>
  \<open>Math.round\<close> rounds to the nearest integer, a tie going up.
  \<^verbatim>\<open>
  function round(x, digits) {
    const p = Math.pow(10, digits);
    return Math.round(x * p) / p;
  }
  \<close>
\<close>

definition Math_round :: "real \<Rightarrow> real" where
  "Math_round x = of_int \<lfloor>x + 1 / 2\<rfloor>"

definition round_js :: "real \<Rightarrow> nat \<Rightarrow> real" where
  "round_js x digits = (let p = 10 ^ digits in Math_round (x * p) / p)"

text \<open>An exception object: its name and its message.\<close>

datatype js_error = JsError (err_name: jsstring) (err_message: jsstring)

subsection \<open>The problem catalog\<close>

record Problem =
  id_field :: jsstring
  topic :: jsstring
  statement :: jsstring
  expectedValue :: real
  toleranceRatio :: real
  units :: jsstring
  septagonNodes :: "jsstring list"

definition mechanics_a :: Problem where
  "mechanics_a =
     \<lparr> id_field = js ''mechanics_a'',
       topic = js ''Classical Mechanics'',
       statement = js ''A 2 kg object is pulled with a horizontal force of 10 N on a frictionless surface. Calculate its acceleration.'',
       expectedValue = 5.0,
       toleranceRatio = 0.05,
       units = js ''m/s^2'',
       septagonNodes =
         [js ''mass m = 2 kg'',
          js ''horizontal force F = 10 N'',
          js ''frictionless surface'',
          js ''target: acceleration a''] \<rparr>"

text \<open>The third node of the next problem holds the letter pi (960) and the sign of multiplication (215).\<close>

definition em_bfield :: Problem where
  "em_bfield =
     \<lparr> id_field = js ''em_bfield'',
       topic = js ''Electromagnetism'',
       statement = js ''A long straight wire carries a current of 3 A. What is the magnetic field strength at a distance of 5 cm from the wire in vacuum?'',
       expectedValue = 12 / 10 ^ 6,
       toleranceRatio = 0.1,
       units = js ''T'',
       septagonNodes =
         [js ''current I = 3 A'',
          js ''distance r = 0.05 m'',
          js ''constant mu0 = 4'' @ [960, 32, 215] @ js '' 10^-7 H/m'',
          js ''target: magnetic field B''] \<rparr>"

definition thermo_work :: Problem where
  "thermo_work =
     \<lparr> id_field = js ''thermo_work'',
       topic = js ''Thermodynamics'',
       statement = js ''In a closed system, 1 mol ideal gas undergoes isothermal expansion at T = 300 K from V1 = 2 L to V2 = 4 L. Compute the work done by the gas.'',
       expectedValue = 1728.5,
       toleranceRatio = 0.05,
       units = js ''J'',
       septagonNodes =
         [js ''amount n = 1 mol'',
          js ''temperature T = 300 K'',
          js ''initial volume V1 = 2 L'',
          js ''final volume V2 = 4 L'',
          js ''process: isothermal'',
          js ''target: work W''] \<rparr>"

definition problems :: "Problem list" where
  "problems = [mechanics_a, em_bfield, thermo_work]"

subsection \<open>Prompt templates\<close>

text \<open>
  \<^verbatim>\<open>
  function buildLinearPrompt(problem) {
    return (
      'You are given a physics problem. Solve it with step-by-step reasoning and provide the final numeric answer with units.\n' +
      `Problem: ${problem.statement}\n` +
      'Output format: first show key formulas and steps, then a single final line starting with "Final Answer:" followed by the numeric value and units.'
    );
  }
  function buildSeptagonPrompt(problem) {
    const nodes = problem.septagonNodes.map(n => `- ${n}`).join('\n');
    return (
      'You are given the following non-linear septagon diagram nodes that encode the problem context. Use the relationships between nodes to reason and solve. Provide the final numeric answer with units.\n' +
      'Nodes:\n' +
      `${nodes}\n` +
      'Output format: first map nodes to formulas, then show reasoning steps, then a single final line starting with "Final Answer:" followed by the numeric value and units.'
    );
  }
  \<close>
\<close>

definition buildLinearPrompt :: "Problem \<Rightarrow> jsstring" where
  \<open>buildLinearPrompt problem =
     js ''You are given a physics problem. Solve it with step-by-step reasoning and provide the final numeric answer with units.\<newline>'' @
     (js ''Problem: '' @ statement problem @ js ''\<newline>'') @
     js ''Output format: first show key formulas and steps, then a single final line starting with "Final Answer:" followed by the numeric value and units.''\<close>

fun join :: "jsstring \<Rightarrow> jsstring list \<Rightarrow> jsstring" where
  "join sep [] = []"
| "join sep [x] = x"
| "join sep (x # y # ys) = x @ sep @ join sep (y # ys)"

definition buildSeptagonPrompt :: "Problem \<Rightarrow> jsstring" where
  \<open>buildSeptagonPrompt problem =
     (let nodes = join (js ''\<newline>'') (map (\<lambda>n. js ''- '' @ n) (septagonNodes problem))
      in js ''You are given the following non-linear septagon diagram nodes that encode the problem context. Use the relationships between nodes to reason and solve. Provide the final numeric answer with units.\<newline>'' @
         js ''Nodes:\<newline>'' @
         (nodes @ js ''\<newline>'') @
         js ''Output format: first map nodes to formulas, then show reasoning steps, then a single final line starting with "Final Answer:" followed by the numeric value and units.'')\<close>

text \<open>
  The output-format instruction of a prompt is its last line; the part of it that fixes
  the final line of the answer is the same text in both templates.
\<close>

definition last_line :: "jsstring \<Rightarrow> jsstring" where
  "last_line s = rev (takeWhile (\<lambda>c. c \<noteq> 10) (rev s))"

definition final_answer_instruction :: jsstring where
  \<open>final_answer_instruction =
     js ''then a single final line starting with "Final Answer:" followed by the numeric value and units.''\<close>

subsection \<open>Evaluation helpers: the answer extractor\<close>

text \<open>
  \<^verbatim>\<open>
  function extractFinalNumeric(answerText) {
    // Find the line that starts with "Final Answer:" and extract the first number
    if (!answerText) return null;
    const lines = String(answerText).split(/\r?\n/);
    const finalLine = lines.find(l => /^\s*Final Answer\s*:/i.test(l));
    const target = finalLine || answerText;
    const match = String(target).replace(/,/g, '').match(/(-?\d+(?:\.\d+)?(?:e[+-]?\d+)?)/i);
    if (!match) return null;
    const value = Number(match[1]);
    return Number.isFinite(value) ? value : null;
  }
  \<close>
  The regular expressions are written out as the matchers they denote. The character
  classes: \<open>\d\<close> is an ASCII digit; \<open>\s\<close> is the white space and the line terminators of
  the language.
\<close>

definition is_digit :: "nat \<Rightarrow> bool" where
  "is_digit c \<longleftrightarrow> 48 \<le> c \<and> c \<le> 57"

definition is_space :: "nat \<Rightarrow> bool" where
  "is_space c \<longleftrightarrow>
     c \<in> {9, 10, 11, 12, 13, 32, 160, 5760, 8232, 8233, 8239, 8287, 12288, 65279}
     \<or> (8192 \<le> c \<and> c \<le> 8202)"

text \<open>
  \<open>split(/\r?\n/)\<close>: a line ends at a line feed, which takes a carriage return just
  before it along. The first argument is the line being read.
\<close>

fun split_lines :: "jsstring \<Rightarrow> jsstring \<Rightarrow> jsstring list" where
  "split_lines line (c # d # cs) =
     (if c = 13 \<and> d = 10 then line # split_lines [] cs
      else if c = 10 then line # split_lines [] (d # cs)
      else split_lines (line @ [c]) (d # cs))"
| "split_lines line [c] = (if c = 10 then [line, []] else [line @ [c]])"
| "split_lines line [] = [line]"

text \<open>
  \<open>/^\s*Final Answer\s*:/i\<close>. Under the flag \<open>i\<close> two characters match when their
  canonical (upper case) forms agree; a character outside ASCII never has an ASCII
  canonical form, so against the ASCII pattern only the ASCII letters need mapping.
\<close>

definition canonicalize :: "nat \<Rightarrow> nat" where
  "canonicalize c = (if 97 \<le> c \<and> c \<le> 122 then c - 32 else c)"

fun match_ci :: "jsstring \<Rightarrow> jsstring \<Rightarrow> jsstring option" where
  "match_ci [] s = Some s"
| "match_ci (p # ps) [] = None"
| "match_ci (p # ps) (c # cs) =
     (if canonicalize c = canonicalize p then match_ci ps cs else None)"

definition is_final_answer_line :: "jsstring \<Rightarrow> bool" where
  "is_final_answer_line l =
     (case match_ci (js ''Final Answer'') (dropWhile is_space l) of
        None \<Rightarrow> False
      | Some r \<Rightarrow>
          (case dropWhile is_space r of
             [] \<Rightarrow> False
           | c # _ \<Rightarrow> c = 58))"

text \<open>
  \<open>/(-?\d+(?:\.\d+)?(?:e[+-]?\d+)?)/i\<close>. Every quantifier is greedy, and what follows
  each of them can match the empty string, so the first alternative that is tried is the
  one that is taken: all the digits, then the fraction if a dot and a digit follow, then
  the exponent if \<open>e\<close>, an optional sign and a digit follow. A match is kept as its four
  parts; the matched text is their concatenation.
\<close>

record literal =
  lit_sign :: jsstring
  lit_int :: jsstring
  lit_frac :: jsstring
  lit_exp :: jsstring

definition lit_text :: "literal \<Rightarrow> jsstring" where
  "lit_text l = lit_sign l @ lit_int l @ lit_frac l @ lit_exp l"

definition match_fraction :: "jsstring \<Rightarrow> jsstring" where
  "match_fraction s =
     (case s of
        [] \<Rightarrow> []
      | c # r \<Rightarrow>
          if c = 46 \<and> takeWhile is_digit r \<noteq> [] then c # takeWhile is_digit r else [])"

definition match_exponent :: "jsstring \<Rightarrow> jsstring" where
  "match_exponent s =
     (case s of
        [] \<Rightarrow> []
      | c # r \<Rightarrow>
          if c = 101 \<or> c = 69 then
            (case r of
               [] \<Rightarrow> []
             | d # r' \<Rightarrow>
                 if d = 43 \<or> d = 45 then
                   (if takeWhile is_digit r' \<noteq> [] then c # d # takeWhile is_digit r' else [])
                 else if takeWhile is_digit r \<noteq> [] then c # takeWhile is_digit r
                 else [])
          else [])"

definition match_unsigned :: "jsstring \<Rightarrow> jsstring \<Rightarrow> literal option" where
  "match_unsigned sign s =
     (let ds = takeWhile is_digit s
      in if ds = [] then None
         else
           (let r1 = dropWhile is_digit s;
                fr = match_fraction r1;
                ex = match_exponent (drop (length fr) r1)
            in Some \<lparr> lit_sign = sign, lit_int = ds, lit_frac = fr, lit_exp = ex \<rparr>))"

text \<open>At one position: with the minus sign if there is one, and without it if that fails.\<close>

definition match_number_at :: "jsstring \<Rightarrow> literal option" where
  "match_number_at s =
     (case s of
        [] \<Rightarrow> None
      | c # r \<Rightarrow>
          if c = 45 then
            (case match_unsigned [45] r of
               Some l \<Rightarrow> Some l
             | None \<Rightarrow> match_unsigned [] s)
          else match_unsigned [] s)"

text \<open>\<open>String.prototype.match\<close> without the flag \<open>g\<close>: the match at the leftmost position that has one.\<close>

fun search_number :: "jsstring \<Rightarrow> literal option" where
  "search_number [] = None"
| "search_number (c # cs) =
     (case match_number_at (c # cs) of
        Some l \<Rightarrow> Some l
      | None \<Rightarrow> search_number cs)"

text \<open>
  \<open>Number(match[1])\<close> on the text of a match: the value of the decimal literal, and an
  infinity from \<open>2^1024 - 2^970\<close> on, the least magnitude that rounds past the largest
  double. (The rounding of smaller values to the nearest double is not modelled.)
\<close>

definition digits_value :: "jsstring \<Rightarrow> nat" where
  "digits_value ds = foldl (\<lambda>n d. 10 * n + (d - 48)) 0 ds"

definition exponent_value :: "jsstring \<Rightarrow> int" where
  "exponent_value ex =
     (case ex of
        [] \<Rightarrow> 0
      | e # r \<Rightarrow>
          (case r of
             [] \<Rightarrow> 0
           | d # r' \<Rightarrow>
               if d = 45 then - int (digits_value r')
               else if d = 43 then int (digits_value r')
               else int (digits_value r)))"

definition scale10 :: "real \<Rightarrow> int \<Rightarrow> real" where
  "scale10 x e = (if 0 \<le> e then x * 10 ^ nat e else x / 10 ^ nat (- e))"

definition literal_value :: "literal \<Rightarrow> real" where
  "literal_value l =
     (let mantissa = real (digits_value (lit_int l @ tl (lit_frac l))) / 10 ^ length (tl (lit_frac l));
          magnitude = scale10 mantissa (exponent_value (lit_exp l))
      in if lit_sign l = [] then magnitude else - magnitude)"

definition overflow_threshold :: real where
  "overflow_threshold = 2 ^ 1024 - 2 ^ 970"

definition Number_js :: "literal \<Rightarrow> jsnum" where
  "Number_js l =
     (let v = literal_value l
      in if overflow_threshold \<le> v then PosInfinity
         else if v \<le> - overflow_threshold then NegInfinity
         else Num v)"

definition extractFinalNumeric :: "jsstring \<Rightarrow> real option" where
  "extractFinalNumeric answerText =
     (if answerText = [] then None
      else
        (let lines = split_lines [] answerText;
             finalLine = find is_final_answer_line lines;
             target = (case finalLine of
                         None \<Rightarrow> answerText
                       | Some l \<Rightarrow> if l = [] then answerText else l);
             match = search_number (filter (\<lambda>c. c \<noteq> 44) target)
         in case match of
              None \<Rightarrow> None
            | Some m \<Rightarrow>
                (case Number_js m of
                   Num v \<Rightarrow> Some v
                 | _ \<Rightarrow> None)))"

text \<open>
  The extractor as the specification words it: the line must start with the marker
  \<open>Final Answer:\<close> itself, and the match is parsed to a number.
\<close>

definition claimed_final_answer_line :: "jsstring \<Rightarrow> bool" where
  "claimed_final_answer_line l =
     (case match_ci (js ''Final Answer:'') (dropWhile is_space l) of
        None \<Rightarrow> False
      | Some r \<Rightarrow> True)"

definition claimed_extract :: "jsstring \<Rightarrow> jsnum option" where
  "claimed_extract text =
     (let scope = (case find claimed_final_answer_line (split_lines [] text) of
                     None \<Rightarrow> text
                   | Some l \<Rightarrow> l)
      in map_option Number_js (search_number (filter (\<lambda>c. c \<noteq> 44) scope)))"

text \<open>
  The grammar of a number, and the lines with the marker, said without a matcher.
\<close>

definition digits1 :: "jsstring \<Rightarrow> bool" where
  "digits1 ds \<longleftrightarrow> ds \<noteq> [] \<and> list_all is_digit ds"

definition fraction_part :: "jsstring \<Rightarrow> bool" where
  "fraction_part fr \<longleftrightarrow> (\<exists>ds. fr = 46 # ds \<and> digits1 ds)"

definition exponent_part :: "jsstring \<Rightarrow> bool" where
  "exponent_part ex \<longleftrightarrow>
     (\<exists>e sg ds. ex = e # sg @ ds \<and> (e = 101 \<or> e = 69)
        \<and> (sg = [] \<or> sg = [43] \<or> sg = [45]) \<and> digits1 ds)"

definition number_parts :: "literal \<Rightarrow> bool" where
  "number_parts l \<longleftrightarrow>
     (lit_sign l = [] \<or> lit_sign l = [45]) \<and> digits1 (lit_int l)
     \<and> (lit_frac l = [] \<or> fraction_part (lit_frac l))
     \<and> (lit_exp l = [] \<or> exponent_part (lit_exp l))"

definition number_text :: "jsstring \<Rightarrow> bool" where
  "number_text m \<longleftrightarrow> (\<exists>l. number_parts l \<and> m = lit_text l)"

definition marker_line :: "jsstring \<Rightarrow> bool" where
  "marker_line l \<longleftrightarrow>
     (\<exists>ws fa ws' rest. l = ws @ fa @ ws' @ 58 # rest
        \<and> list_all is_space ws \<and> list_all is_space ws'
        \<and> map canonicalize fa = js ''FINAL ANSWER'')"

subsection \<open>Evaluation helpers: the correctness checker\<close>

text \<open>
  \<^verbatim>\<open>
  function isWithinTolerance(actual, expected, toleranceRatio) {
    if (actual == null) return false;
    const allowed = Math.abs(expected) * toleranceRatio;
    return Math.abs(actual - expected) <= allowed;
  }
  \<close>
\<close>

definition isWithinTolerance :: "real option \<Rightarrow> real \<Rightarrow> real \<Rightarrow> bool" where
  "isWithinTolerance actual expected ratio =
     (case actual of
        None \<Rightarrow> False
      | Some a \<Rightarrow>
          (let allowed = \<bar>expected\<bar> * ratio
           in \<bar>a - expected\<bar> \<le> allowed))"

subsection \<open>Trial records\<close>

text \<open>
  The rows that \<open>runTrials\<close> pushes. The timestamp is kept as the clock reading in
  milliseconds (its ISO rendering is not modelled).
\<close>

record TrialRecord =
  timestamp :: int
  problem_id :: jsstring
  topic :: jsstring
  representation :: jsstring
  trial_index :: nat
  latency_sec :: real
  numeric_answer :: "real option"
  expected_value :: real
  units :: jsstring
  correct :: bool

subsection \<open>The outside world\<close>

text \<open>
  The loop reads the clock, draws random numbers and calls the service. The model passes
  a world along: what \<open>Math.random\<close> will return (numbers in \<open>[0, 1)\<close>), what the clock
  will read (milliseconds), and how the service will answer each request that reaches it
  (the text of the reply, or the exception of a failed, refused or timed-out request).

  The world also holds what the program does not define of the objects of the host:
  \<open>builtins w name key\<close> says whether the built-in object that every object inherits
  under \<open>name\<close> (the function \<open>Object\<close> under \<open>constructor\<close>, say) has under \<open>key\<close> a
  value that counts as true (the name \<open>Object\<close> of that function under \<open>name\<close>, say). The
  run does not change it. A read of a built-in object that throws is not modelled.
\<close>

record world =
  randoms :: "real stream"
  clock :: "int stream"
  responses :: "(jsstring \<Rightarrow> jsstring \<Rightarrow> js_error + jsstring) stream"
  builtins :: "jsstring \<Rightarrow> jsstring \<Rightarrow> bool"

definition Math_random :: "world \<Rightarrow> real \<times> world" where
  "Math_random w = (shd (randoms w), w\<lparr>randoms := stl (randoms w)\<rparr>)"

definition Date_now :: "world \<Rightarrow> int \<times> world" where
  "Date_now w = (shd (clock w), w\<lparr>clock := stl (clock w)\<rparr>)"


subsection \<open>The call to the service\<close>

text \<open>
  \<^verbatim>\<open>
  async function callOpenAIChat(model, prompt) {
    if (!OPENAI_API_KEY) {
      throw new Error('Missing OPENAI_API_KEY');
    }
    ... fetch, with a timeout of 120 s; a reply that is not ok is thrown as an Error ...
    const content = data?.choices?.[0]?.message?.content || '';
    return content;
  }
  \<close>
  The key is a constant of the module, read from the environment; it is a parameter here.
\<close>

definition callOpenAIChat ::
  "jsstring \<Rightarrow> jsstring \<Rightarrow> jsstring \<Rightarrow> world \<Rightarrow> (js_error + jsstring) \<times> world" where
  "callOpenAIChat OPENAI_API_KEY model prompt w =
     (if OPENAI_API_KEY = [] then
        (Inl (JsError (js ''Error'') (js ''Missing OPENAI_API_KEY'')), w)
      else (shd (responses w) model prompt, w\<lparr>responses := stl (responses w)\<rparr>))"

text \<open>
  \<open>String(e.message || e)\<close>: the message, or for an empty message the text of the
  exception, which is then its name.
\<close>

definition error_text :: "js_error \<Rightarrow> jsstring" where
  "error_text e = (if err_message e \<noteq> [] then err_message e else err_name e)"

subsection \<open>Dry-run synthesis\<close>

text \<open>
  \<^verbatim>\<open>
  function synthesizeTrial(problemId, representation) {
    const means = {
      mechanics_a: { linear: { t: 21.3, err: 0.28 }, septagon: { t: 18.0, err: 0.22 } },
      em_bfield: { linear: { t: 25.5, err: 0.31 }, septagon: { t: 21.7, err: 0.25 } },
      thermo_work: { linear: { t: 23.4, err: 0.29 }, septagon: { t: 19.6, err: 0.23 } },
    };
    const m = means[problemId]?.[representation] || { t: 22.0, err: 0.3 };
    const timeSec = Math.max(5, m.t + randn() * 1.2); // add noise
    const isError = Math.random() < m.err;
    return { timeSec: round(timeSec, 2), correct: !isError };
  }
  function randn() {
    const u = 1 - Math.random();
    const v = 1 - Math.random();
    return Math.sqrt(-2.0 * Math.log(u)) * Math.cos(2.0 * Math.PI * v);
  }
  \<close>
  The table and its three inner objects are object literals, and a lookup in an object
  literal also finds what the object inherits from \<open>Object.prototype\<close>. So the value of
  \<open>means[problemId]?.[representation]\<close> is one of three things:
  an entry of the table, when both names are keys of it;
  \<open>undefined\<close>, when the identifier is neither a key nor an inherited name (the \<open>?.\<close>
  stops there), or when the representation is neither a key of the inner object nor an
  inherited name;
  an inherited value otherwise: a known identifier with a representation such as
  \<open>constructor\<close> reads a function of \<open>Object.prototype\<close>, and an identifier that is itself
  an inherited name reads a built-in object, in which the representation is then looked up
  (what that object holds is the host's, see \<open>builtins\<close>).
  The names that every object inherits:
\<close>

definition object_prototype_names :: "jsstring list" where
  "object_prototype_names =
     [js ''constructor'', js ''hasOwnProperty'', js ''isPrototypeOf'',
      js ''propertyIsEnumerable'', js ''toLocaleString'', js ''toString'', js ''valueOf'',
      js ''__proto__'', js ''__defineGetter__'', js ''__defineSetter__'',
      js ''__lookupGetter__'', js ''__lookupSetter__'']"

definition means :: "(jsstring \<times> (jsstring \<times> real \<times> real) list) list" where
  "means =
     [(js ''mechanics_a'', [(js ''linear'', (21.3, 0.28)), (js ''septagon'', (18.0, 0.22))]),
      (js ''em_bfield'', [(js ''linear'', (25.5, 0.31)), (js ''septagon'', (21.7, 0.25))]),
      (js ''thermo_work'', [(js ''linear'', (23.4, 0.29)), (js ''septagon'', (19.6, 0.23))])]"

text \<open>
  The value of \<open>means[problemId]?.[representation]\<close>. \<open>Inherited\<close> stands for a value that
  counts as true and is not an entry of the table (a function, an object, a non-empty
  string); \<open>Undefined\<close> for \<open>undefined\<close> and every other value that counts as false.
  The values under the inherited names of an inner object are the functions of
  \<open>Object.prototype\<close> and, under \<open>__proto__\<close>, \<open>Object.prototype\<close> itself.
\<close>

datatype looked = Found "real \<times> real" | Inherited | Undefined

definition means_lookup :: "world \<Rightarrow> jsstring \<Rightarrow> jsstring \<Rightarrow> looked" where
  "means_lookup w problemId rep =
     (case map_of means problemId of
        Some inner \<Rightarrow>
          (case map_of inner rep of
             Some m \<Rightarrow> Found m
           | None \<Rightarrow> if rep \<in> set object_prototype_names then Inherited else Undefined)
      | None \<Rightarrow>
          if problemId \<in> set object_prototype_names \<and> builtins w problemId rep then Inherited
          else Undefined)"

text \<open>
  The object \<open>m\<close>: the value of the lookup, or \<open>{ t: 22.0, err: 0.3 }\<close> when that counts
  as false. An inherited value is kept by the \<open>||\<close>; it has no property \<open>t\<close> or \<open>err\<close>,
  both read \<open>undefined\<close>, and \<open>m\<close> is \<open>None\<close> for it.
\<close>

definition baseline :: "world \<Rightarrow> jsstring \<Rightarrow> jsstring \<Rightarrow> (real \<times> real) option" where
  "baseline w problemId rep =
     (case means_lookup w problemId rep of
        Found m \<Rightarrow> Some m
      | Undefined \<Rightarrow> Some (22.0, 0.3)
      | Inherited \<Rightarrow> None)"

text \<open>
  With draws in \<open>[0, 1)\<close> the numbers \<open>u\<close> and \<open>v\<close> are in \<open>(0, 1]\<close>, and the noise is a
  finite number.
\<close>

definition randn :: "world \<Rightarrow> real \<times> world" where
  "randn w =
     (let (r1, w1) = Math_random w; u = 1 - r1;
          (r2, w2) = Math_random w1; v = 1 - r2
      in (sqrt (- 2 * ln u) * cos (2 * pi * v), w2))"

text \<open>
  \<open>round\<close> on a number that may be NaN or infinite: \<open>Math.round\<close> and the division leave
  NaN and the infinities as they are.
\<close>

definition round_num :: "jsnum \<Rightarrow> nat \<Rightarrow> jsnum" where
  "round_num x digits = (case x of Num r \<Rightarrow> Num (round_js r digits) | _ \<Rightarrow> x)"

text \<open>
  With \<open>m.t\<close> undefined the sum \<open>m.t + randn() * 1.2\<close> is NaN, and so are \<open>Math.max(5, NaN)\<close>
  and its rounding; with \<open>m.err\<close> undefined the comparison \<open>Math.random() < m.err\<close> is
  false. The three draws are made in either case.
\<close>

record Synth =
  timeSec :: jsnum
  synth_correct :: bool

definition synthesizeTrial :: "jsstring \<Rightarrow> jsstring \<Rightarrow> world \<Rightarrow> Synth \<times> world" where
  "synthesizeTrial problemId rep w =
     (let m = baseline w problemId rep;
          (noise, w1) = randn w;
          time = (case m of Some (t, err) \<Rightarrow> Num (max 5 (t + noise * 1.2)) | None \<Rightarrow> NaN);
          (draw, w2) = Math_random w1;
          isError = (case m of Some (t, err) \<Rightarrow> draw < err | None \<Rightarrow> False)
      in (\<lparr> timeSec = round_num time 2, synth_correct = \<not> isError \<rparr>, w2))"

subsection \<open>Printing a number\<close>

text \<open>
  A template literal prints a number by \<open>Number::toString\<close>: the shortest digits \<open>s\<close>
  (\<open>k\<close> of them) and the exponent \<open>n\<close> with \<open>s * 10^(n-k)\<close> the number, laid out
  without an exponent when \<open>-6 < n \<le> 21\<close>. The number is read here as the decimal
  it prints as; the search for its digits stops after 400 places.
\<close>

function nat_digits :: "nat \<Rightarrow> jsstring" where
  "nat_digits n = (if n < 10 then [48 + n] else nat_digits (n div 10) @ [48 + n mod 10])"
  by pat_completeness auto
termination
  by (relation "measure id") auto

declare nat_digits.simps [simp del]

function frac_len :: "nat \<Rightarrow> real \<Rightarrow> nat" where
  "frac_len j x =
     (if 400 \<le> j \<or> x * 10 ^ j = of_int \<lfloor>x * 10 ^ j\<rfloor> then j else frac_len (Suc j) x)"
  by pat_completeness auto
termination
  by (relation "measure (\<lambda>(j, x). 400 - j)") auto

declare frac_len.simps [simp del]

definition strip_zeros :: "jsstring \<Rightarrow> jsstring" where
  "strip_zeros ds = rev (dropWhile (\<lambda>c. c = 48) (rev ds))"

definition Number_toString_pos :: "real \<Rightarrow> jsstring" where
  "Number_toString_pos x =
     (let j = frac_len 0 x;
          ds = nat_digits (nat \<lfloor>x * 10 ^ j\<rfloor>);
          s = strip_zeros ds;
          k = int (length s);
          n = int (length ds) - int j
      in if k \<le> n \<and> n \<le> 21 then s @ replicate (nat (n - k)) 48
         else if 0 < n \<and> n \<le> 21 then take (nat n) s @ [46] @ drop (nat n) s
         else if - 6 < n \<and> n \<le> 0 then js ''0.'' @ replicate (nat (- n)) 48 @ s
         else
           (let e = n - 1;
                es = (if e < 0 then [45] else [43]) @ nat_digits (nat \<bar>e\<bar>)
            in if k = 1 then s @ [101] @ es
               else take 1 s @ [46] @ drop 1 s @ [101] @ es))"

definition Number_toString :: "real \<Rightarrow> jsstring" where
  "Number_toString x =
     (if x = 0 then js ''0''
      else if x < 0 then [45] @ Number_toString_pos (- x)
      else Number_toString_pos x)"

subsection \<open>Experiment loop\<close>

text \<open>
  \<^verbatim>\<open>
  async function runTrials({ representation, trials, dryRun, model }) {
    const rows = [];
    for (const problem of problems) {
      for (let i = 0; i < trials; i++) {
        const id = `${problem.id}`;
        const prompt = representation === 'linear' ? buildLinearPrompt(problem) : buildSeptagonPrompt(problem);
        let start = Date.now();
        let answerText = '';
        let latencySec = 0;
        let numeric = null;
        let correct = false;

        if (dryRun) {
          const synth = synthesizeTrial(problem.id, representation);
          latencySec = synth.timeSec;
          correct = synth.correct;
          answerText = correct
            ? `...\nFinal Answer: ${problem.expectedValue} ${problem.units}`
            : `...\nFinal Answer: ${round(problem.expectedValue * 1.25, 3)} ${problem.units}`;
          numeric = extractFinalNumeric(answerText);
        } else {
          try {
            answerText = await callOpenAIChat(model, prompt);
          } catch (e) {
            answerText = String(e.message || e);
          }
          latencySec = (Date.now() - start) / 1000;
          numeric = extractFinalNumeric(answerText);
          correct = isWithinTolerance(numeric, problem.expectedValue, problem.toleranceRatio);
        }

        rows.push({
          timestamp: new Date().toISOString(),
          problem_id: id,
          topic: problem.topic,
          representation,
          trial_index: i + 1,
          latency_sec: round(latencySec, 2),
          numeric_answer: numeric,
          expected_value: problem.expectedValue,
          units: problem.units,
          correct,
        });
      }
    }
    return rows;
  }
  \<close>
  The text that the dry run makes up for a trial, by the flag that was drawn:
\<close>

definition dry_answerText :: "Problem \<Rightarrow> bool \<Rightarrow> jsstring" where
  "dry_answerText problem flag =
     (if flag then
        js ''...\<newline>Final Answer: '' @ Number_toString (expectedValue problem) @ js '' '' @
        Problem.units problem
      else
        js ''...\<newline>Final Answer: '' @
        Number_toString (round_js (expectedValue problem * 1.25) 3) @ js '' '' @
        Problem.units problem)"

text \<open>The prompt of a trial, and the text that the \<open>try\<close> and its \<open>catch\<close> leave in \<open>answerText\<close>.\<close>

definition choose_prompt :: "jsstring \<Rightarrow> Problem \<Rightarrow> jsstring" where
  "choose_prompt rep problem =
     (if rep = js ''linear'' then buildLinearPrompt problem else buildSeptagonPrompt problem)"

definition caught_text :: "js_error + jsstring \<Rightarrow> jsstring" where
  "caught_text reply = (case reply of Inr content \<Rightarrow> content | Inl e \<Rightarrow> error_text e)"

text \<open>
  A row keeps its latency as a real number, which is what the summary averages. The one
  latency that is not a number is the NaN of the synthesizer, which needs a representation
  that names an inherited property; \<open>main\<close> passes \<open>linear\<close> or \<open>septagon\<close>, never such a
  name. The row of the model holds 0 in its place.
\<close>

definition row_latency :: "jsnum \<Rightarrow> real" where
  "row_latency x = (case x of Num r \<Rightarrow> r | _ \<Rightarrow> 0)"

text \<open>
  The body of the inner loop: one trial, and the row it pushes. (The variables \<open>id\<close> and
  \<open>correct\<close> are \<open>ident\<close> and \<open>flag\<close> here, where those names are taken.)
\<close>

definition runTrial ::
  "jsstring \<Rightarrow> jsstring \<Rightarrow> bool \<Rightarrow> jsstring \<Rightarrow> Problem \<Rightarrow> nat \<Rightarrow> world \<Rightarrow> TrialRecord \<times> world" where
  "runTrial OPENAI_API_KEY rep dryRun model problem i w =
     (let ident = id_field problem;
          prompt = choose_prompt rep problem;
          (start, w1) = Date_now w
      in if dryRun then
           (let (synth, w2) = synthesizeTrial (id_field problem) rep w1;
                latencySec = timeSec synth;
                flag = synth_correct synth;
                answerText = dry_answerText problem flag;
                numeric = extractFinalNumeric answerText;
                (stamp, w3) = Date_now w2
            in (\<lparr> timestamp = stamp, problem_id = ident, topic = Problem.topic problem,
                   representation = rep, trial_index = i + 1,
                   latency_sec = row_latency (round_num latencySec 2), numeric_answer = numeric,
                   expected_value = expectedValue problem, units = Problem.units problem,
                   correct = flag \<rparr>, w3))
         else
           (let (reply, w2) = callOpenAIChat OPENAI_API_KEY model prompt w1;
                answerText = caught_text reply;
                (finish, w3) = Date_now w2;
                latencySec = real_of_int (finish - start) / 1000;
                numeric = extractFinalNumeric answerText;
                flag = isWithinTolerance numeric (expectedValue problem) (toleranceRatio problem);
                (stamp, w4) = Date_now w3
            in (\<lparr> timestamp = stamp, problem_id = ident, topic = Problem.topic problem,
                   representation = rep, trial_index = i + 1,
                   latency_sec = round_js latencySec 2, numeric_answer = numeric,
                   expected_value = expectedValue problem, units = Problem.units problem,
                   correct = flag \<rparr>, w4)))"

text \<open>
  The inner loop runs while \<open>i < trials\<close>: \<open>n\<close> more trials from index \<open>i\<close> on. The outer
  loop goes through the catalog. Nothing in either loop can throw: the only call that
  does is inside the \<open>try\<close>.
\<close>

fun trial_loop ::
  "jsstring \<Rightarrow> jsstring \<Rightarrow> bool \<Rightarrow> jsstring \<Rightarrow> Problem \<Rightarrow> nat \<Rightarrow> nat \<Rightarrow> world \<Rightarrow> TrialRecord list \<times> world" where
  "trial_loop OPENAI_API_KEY rep dryRun model problem 0 i w = ([], w)"
| "trial_loop OPENAI_API_KEY rep dryRun model problem (Suc n) i w =
     (let (row, w1) = runTrial OPENAI_API_KEY rep dryRun model problem i w;
          (rows, w2) = trial_loop OPENAI_API_KEY rep dryRun model problem n (Suc i) w1
      in (row # rows, w2))"

fun problem_loop ::
  "jsstring \<Rightarrow> jsstring \<Rightarrow> bool \<Rightarrow> jsstring \<Rightarrow> nat \<Rightarrow> Problem list \<Rightarrow> world \<Rightarrow> TrialRecord list \<times> world" where
  "problem_loop OPENAI_API_KEY rep dryRun model n [] w = ([], w)"
| "problem_loop OPENAI_API_KEY rep dryRun model n (problem # ps) w =
     (let (rows, w1) = trial_loop OPENAI_API_KEY rep dryRun model problem n 0 w;
          (rows', w2) = problem_loop OPENAI_API_KEY rep dryRun model n ps w1
      in (rows @ rows', w2))"

text \<open>\<open>trials\<close> is an integer, or NaN when the option does not parse; NaN and the negative numbers run no trial, as 0 does.\<close>

definition runTrials ::
  "jsstring \<Rightarrow> jsstring \<Rightarrow> int \<Rightarrow> bool \<Rightarrow> jsstring \<Rightarrow> world \<Rightarrow> TrialRecord list \<times> world" where
  "runTrials OPENAI_API_KEY rep trials_arg dryRun model w =
     problem_loop OPENAI_API_KEY rep dryRun model (nat trials_arg) problems w"

text \<open>
  The trials of a run in their order: each problem of the catalog with the trial indices
  \<open>1, ..., n\<close>.
\<close>

definition trial_plan :: "nat \<Rightarrow> (Problem \<times> nat) list" where
  "trial_plan n = List.product problems [1..<Suc n]"

text \<open>
  What a live run with a key records for a planned trial and the answer of the service to
  its request: the extractor applied to the reply, or to the text of the exception, and
  the verdict of the checker on that.
\<close>

definition live_row :: "jsstring \<Rightarrow> jsstring \<Rightarrow> (Problem \<times> nat) \<times> (jsstring \<Rightarrow> jsstring \<Rightarrow> js_error + jsstring) \<Rightarrow> TrialRecord \<Rightarrow> bool" where
  "live_row rep model planned r =
     (let p = fst (fst planned); i = snd (fst planned);
          reply = snd planned model (choose_prompt rep p)
      in problem_id r = id_field p \<and> trial_index r = i
         \<and> numeric_answer r = extractFinalNumeric (caught_text reply)
         \<and> correct r = isWithinTolerance (numeric_answer r) (expectedValue p) (toleranceRatio p))"

text \<open>
  Worlds for the examples. In the first the clock stands still, every draw is 0 and every
  reply is the same text. In the second the third draw is 0.9, so that the first
  synthesized trial is not an error. In the third the second request to the service fails.
  None of them says anything of the built-in objects, which their examples do not read.
\<close>

definition still_world :: world where
  "still_world = \<lparr> randoms = sconst 0, clock = sconst 0,
     responses = sconst (\<lambda>model prompt. Inr (js ''Final Answer: 5 m/s^2'')),
     builtins = (\<lambda>name key. False) \<rparr>"

text \<open>A problem that is not in the catalog: its expected value is 0.\<close>

definition null_problem :: Problem where
  "null_problem = mechanics_a \<lparr> id_field := js ''at_rest'', expectedValue := 0 \<rparr>"

definition mixed_world :: world where
  "mixed_world = still_world \<lparr> randoms := 0 ## 0 ## 0.9 ## sconst 0 \<rparr>"

definition failing_world :: world where
  "failing_world = still_world \<lparr> responses :=
     (\<lambda>model prompt. Inr (js ''a = F / m\<newline>Final Answer: 5 m/s^2'')) ##
     (\<lambda>model prompt. Inl (JsError (js ''Error'') (js ''OpenAI API error 429: rate limited''))) ##
     sconst (\<lambda>model prompt. Inr (js ''Final Answer: 1,728.5 J'')) \<rparr>"




subsection \<open>The summary\<close>

text \<open>
  The objects that \<open>aggregate\<close> pushes. \<open>problem_id\<close> and \<open>representation\<close> come
  from a destructuring of \<open>k.split('__')\<close> and are undefined (\<open>None\<close>) when the array is
  too short; the two quotients are NaN when the group is empty.
\<close>

record AggregateRecord =
  agg_problem_id :: "jsstring option"
  agg_topic :: jsstring
  agg_representation :: "jsstring option"
  trials :: nat
  mean_latency_sec :: jsnum
  error_rate :: jsnum

text \<open>
  \<^verbatim>\<open>
  function aggregate(rows) {
    const key = r => `${r.problem_id}__${r.representation}`;
    const groups = new Map();
    for (const r of rows) {
      const k = key(r);
      if (!groups.has(k)) groups.set(k, []);
      groups.get(k).push(r);
    }
    const aggregates = [];
    for (const [k, arr] of groups.entries()) {
      const [problem_id, representation] = k.split('__');
      const latency = arr.map(x => x.latency_sec);
      const meanLatency = round(latency.reduce((a, b) => a + b, 0) / latency.length, 2);
      const errRate = round(1 - arr.filter(x => x.correct).length / arr.length, 3);
      const topic = arr[0]?.topic || '';
      aggregates.push({ problem_id, topic, representation, trials: arr.length,
                        mean_latency_sec: meanLatency, error_rate: errRate });
    }
    return aggregates;
  }
  \<close>
  A \<open>Map\<close> iterates in insertion order: it is an association list, \<open>set\<close> on a new key
  appends and on an old key replaces in place (\<open>AList.update\<close>).
\<close>

definition key :: "TrialRecord \<Rightarrow> jsstring" where
  "key r = problem_id r @ js ''__'' @ representation r"

type_synonym groups = "(jsstring \<times> TrialRecord list) list"

definition group_step :: "groups \<Rightarrow> TrialRecord \<Rightarrow> js_error + groups" where
  "group_step groups r =
     (let k = key r;
          groups1 = (if map_of groups k = None then AList.update k [] groups else groups)
      in case map_of groups1 k of
           None \<Rightarrow> Inl (JsError (js ''TypeError'') (js ''Cannot read properties of undefined''))
         | Some arr \<Rightarrow> Inr (AList.update k (arr @ [r]) groups1))"

fun group_rows :: "groups \<Rightarrow> TrialRecord list \<Rightarrow> js_error + groups" where
  "group_rows groups [] = Inr groups"
| "group_rows groups (r # rows) =
     (case group_step groups r of
        Inl e \<Rightarrow> Inl e
      | Inr groups' \<Rightarrow> group_rows groups' rows)"

text \<open>
  \<open>k.split('__')\<close>: the pieces between the successive occurrences of the separator,
  found from left to right without overlap. The first argument is the piece being read.
\<close>

fun split_sep :: "jsstring \<Rightarrow> jsstring \<Rightarrow> jsstring list" where
  "split_sep piece (a # b # cs) =
     (if a = 95 \<and> b = 95 then piece # split_sep [] cs
      else split_sep (piece @ [a]) (b # cs))"
| "split_sep piece [a] = [piece @ [a]]"
| "split_sep piece [] = [piece]"

definition element :: "'a list \<Rightarrow> nat \<Rightarrow> 'a option" where
  "element xs i = (if i < length xs then Some (xs ! i) else None)"

definition mean_latency :: "real list \<Rightarrow> jsnum" where
  "mean_latency latency =
     (if latency = [] then NaN
      else Num (round_js (foldl (+) 0 latency / real (length latency)) 2))"

definition err_rate :: "TrialRecord list \<Rightarrow> jsnum" where
  "err_rate arr =
     (if arr = [] then NaN
      else Num (round_js (1 - real (length (filter correct arr)) / real (length arr)) 3))"

definition summarize :: "jsstring \<times> TrialRecord list \<Rightarrow> AggregateRecord" where
  "summarize entry =
     (let k = fst entry; arr = snd entry;
          parts = split_sep [] k;
          latency = map latency_sec arr
      in \<lparr> agg_problem_id = element parts 0,
           agg_topic = (case arr of [] \<Rightarrow> [] | x # _ \<Rightarrow> topic x),
           agg_representation = element parts 1,
           trials = length arr,
           mean_latency_sec = mean_latency latency,
           error_rate = err_rate arr \<rparr>)"

definition aggregate :: "TrialRecord list \<Rightarrow> js_error + AggregateRecord list" where
  "aggregate rows =
     (case group_rows [] rows of
        Inl e \<Rightarrow> Inl e
      | Inr groups \<Rightarrow> Inr (map summarize groups))"

text \<open>
  The content of the \<open>Map\<close> after the first loop, written as a closed form: the string
  keys in the order of first appearance, each with the rows that produce it.
\<close>

definition first_occurrences :: "'a list \<Rightarrow> 'a list" where
  "first_occurrences xs = rev (remdups (rev xs))"

definition grouped :: "TrialRecord list \<Rightarrow> groups" where
  "grouped rows =
     map (\<lambda>k. (k, filter (\<lambda>r. key r = k) rows)) (first_occurrences (map key rows))"

text \<open>
  The summary in the words of the specification: one record for each distinct pair of
  problem identifier and representation, in the order of first appearance, computed from
  the rows that carry exactly that pair.
\<close>

definition pair_of :: "TrialRecord \<Rightarrow> jsstring \<times> jsstring" where
  "pair_of r = (problem_id r, representation r)"

definition group_summary :: "TrialRecord list \<Rightarrow> jsstring \<times> jsstring \<Rightarrow> AggregateRecord" where
  "group_summary rows pq =
     (let members = filter (\<lambda>r. pair_of r = pq) rows;
          n = real (length members)
      in \<lparr> agg_problem_id = Some (fst pq),
           agg_topic = (case members of [] \<Rightarrow> [] | x # _ \<Rightarrow> topic x),
           agg_representation = Some (snd pq),
           trials = length members,
           mean_latency_sec = Num (round_js (sum_list (map latency_sec members) / n) 2),
           error_rate = Num (round_js (1 - real (length (filter correct members)) / n) 3) \<rparr>)"

definition aggregate_spec :: "TrialRecord list \<Rightarrow> AggregateRecord list" where
  "aggregate_spec rows = map (group_summary rows) (first_occurrences (map pair_of rows))"

text \<open>
  The identifiers for which the string key \<open>id__representation\<close> can be taken apart
  again: no \<open>__\<close> inside either part, and no \<open>_\<close> at the end of the identifier.
\<close>

fun has_sep :: "jsstring \<Rightarrow> bool" where
  "has_sep (a # b # cs) = ((a = 95 \<and> b = 95) \<or> has_sep (b # cs))"
| "has_sep _ = False"

definition key_safe :: "TrialRecord \<Rightarrow> bool" where
  "key_safe r \<longleftrightarrow>
     \<not> has_sep (problem_id r @ [95]) \<and> \<not> has_sep (representation r)"

definition key_of :: "jsstring \<times> jsstring \<Rightarrow> jsstring" where
  "key_of pq = fst pq @ js ''__'' @ snd pq"

text \<open>Rows for the examples below: only the fields that \<open>aggregate\<close> reads vary.\<close>

definition sample_row :: "string \<Rightarrow> string \<Rightarrow> real \<Rightarrow> bool \<Rightarrow> TrialRecord" where
  "sample_row pid rep lat ok =
     \<lparr> timestamp = 0, problem_id = js pid, topic = js ''Classical Mechanics'',
       representation = js rep, trial_index = 1, latency_sec = lat, numeric_answer = None,
       expected_value = 5, units = js ''m/s^2'', correct = ok \<rparr>"

section \<open>Properties\<close>

subsection \<open>The correctness checker\<close>

text \<open>
  C5. The checker answers false for a null value; for a number it answers true exactly
  when \<open>|actual - expected| \<le> |expected| * toleranceRatio\<close>, the boundary included.
  With expected value 0 the allowed deviation is 0 and only an exact match passes.
  The two examples of the specification: 5.1 against 5.0 with ratio 0.05 passes,
  5.3 does not.
\<close>

theorem isWithinTolerance_spec:
  "isWithinTolerance None e t = False
   \<and> (isWithinTolerance (Some a) e t \<longleftrightarrow> \<bar>a - e\<bar> \<le> \<bar>e\<bar> * t)
   \<and> (isWithinTolerance (Some (e + \<bar>e\<bar> * t)) e t \<longleftrightarrow> 0 \<le> \<bar>e\<bar> * t)
   \<and> (isWithinTolerance (Some a) 0 t \<longleftrightarrow> a = 0)
   \<and> isWithinTolerance (Some 5.1) 5.0 0.05
   \<and> \<not> isWithinTolerance (Some 5.3) 5.0 0.05"
  by (simp add: isWithinTolerance_def)

subsection \<open>Evaluating string literals\<close>

lemma js_simps:
  "js [] = []" "js (c # cs) = of_char c # js cs"
  by (simp_all add: js_def)

subsection \<open>The answer extractor\<close>

lemma not_digit_marks [simp]:
  "\<not> is_digit 46" "\<not> is_digit 101" "\<not> is_digit 69" "\<not> is_digit 43" "\<not> is_digit 45"
  by (simp_all add: is_digit_def)

lemma digits1_takeWhile: "digits1 ds \<Longrightarrow> takeWhile is_digit (ds @ t) = ds @ takeWhile is_digit t"
  by (simp add: digits1_def list_all_iff takeWhile_append2)

lemma digits1_dropWhile: "digits1 ds \<Longrightarrow> dropWhile is_digit (ds @ t) = dropWhile is_digit t"
  by (simp add: digits1_def list_all_iff dropWhile_append2)

lemma digits1_takeWhile_self: "takeWhile is_digit s \<noteq> [] \<Longrightarrow> digits1 (takeWhile is_digit s)"
  by (auto simp: digits1_def list_all_iff dest: set_takeWhileD)

lemma digits1_hd: "digits1 ds \<Longrightarrow> \<exists>d r. ds = d # r \<and> is_digit d"
  by (cases ds) (auto simp: digits1_def)

lemma takeWhile_dropWhile_length: "drop (length (takeWhile P s)) s = dropWhile P s"
  by (induction s) auto

text \<open>What a match is made of.\<close>

lemma match_fraction_sound:
  "match_fraction s = [] \<or> fraction_part (match_fraction s)"
  by (cases s) (auto simp: match_fraction_def fraction_part_def digits1_takeWhile_self)

lemma match_fraction_prefix: "prefix (match_fraction s) s"
  by (cases s) (auto simp: match_fraction_def takeWhile_is_prefix)

lemma match_exponent_sound:
  "match_exponent s = [] \<or> exponent_part (match_exponent s)"
proof (cases s)
  case Nil
  then show ?thesis by (simp add: match_exponent_def)
next
  case (Cons c r)
  show ?thesis
  proof (cases r)
    case Nil
    with Cons show ?thesis by (simp add: match_exponent_def)
  next
    case (Cons d r')
    have sign: "exponent_part (c # d # takeWhile is_digit r')"
      if "c = 101 \<or> c = 69" "d = 43 \<or> d = 45" "takeWhile is_digit r' \<noteq> []"
      unfolding exponent_part_def
      using that digits1_takeWhile_self [of r']
      by (intro exI [of _ c] exI [of _ "[d]"] exI [of _ "takeWhile is_digit r'"]) auto
    have nosign: "exponent_part (c # takeWhile is_digit r)"
      if "c = 101 \<or> c = 69" "takeWhile is_digit r \<noteq> []"
      unfolding exponent_part_def
      using that digits1_takeWhile_self [of r]
      by (intro exI [of _ c] exI [of _ "[]"] exI [of _ "takeWhile is_digit r"]) auto
    from \<open>s = c # r\<close> Cons sign nosign show ?thesis
      by (auto simp: match_exponent_def)
  qed
qed

lemma match_exponent_prefix: "prefix (match_exponent s) s"
  by (auto simp: match_exponent_def takeWhile_is_prefix split: list.splits)

lemma match_unsigned_sound:
  assumes "match_unsigned sg s = Some l"
  shows "lit_sign l = sg \<and> digits1 (lit_int l)
         \<and> (lit_frac l = [] \<or> fraction_part (lit_frac l))
         \<and> (lit_exp l = [] \<or> exponent_part (lit_exp l))
         \<and> prefix (lit_int l @ lit_frac l @ lit_exp l) s"
proof -
  let ?ds = "takeWhile is_digit s" and ?r1 = "dropWhile is_digit s"
  let ?fr = "match_fraction ?r1"
  let ?ex = "match_exponent (drop (length ?fr) ?r1)"
  from assms have ne: "?ds \<noteq> []" and l: "l = \<lparr> lit_sign = sg, lit_int = ?ds, lit_frac = ?fr, lit_exp = ?ex \<rparr>"
    by (auto simp: match_unsigned_def Let_def split: if_splits)
  obtain t where t: "?r1 = ?fr @ t"
    using match_fraction_prefix [of ?r1] by (auto simp: prefix_def)
  then have "drop (length ?fr) ?r1 = t"
    by (metis append_eq_conv_conj)
  then obtain t' where "t = ?ex @ t'"
    using match_exponent_prefix [of t] by (auto simp: prefix_def)
  with t have "s = ?ds @ ?fr @ ?ex @ t'"
    by (metis takeWhile_dropWhile_id \<open>drop (length ?fr) ?r1 = t\<close>)
  then have "prefix (?ds @ ?fr @ ?ex) s"
    by (metis append.assoc prefixI)
  with ne l show ?thesis
    using match_fraction_sound [of ?r1] match_exponent_sound [of "drop (length ?fr) ?r1"]
    by (simp add: digits1_takeWhile_self)
qed

lemma match_number_at_sound:
  assumes "match_number_at s = Some l"
  shows "number_parts l \<and> prefix (lit_text l) s"
proof (cases s)
  case Nil
  with assms show ?thesis by (simp add: match_number_at_def)
next
  case (Cons c r)
  have plain: "number_parts l \<and> prefix (lit_text l) s" if "match_unsigned [] s = Some l"
    using match_unsigned_sound [OF that] by (simp add: number_parts_def lit_text_def)
  show ?thesis
  proof (cases "c = 45 \<and> match_unsigned [45] r \<noteq> None")
    case True
    with assms Cons have "match_unsigned [45] r = Some l"
      by (auto simp: match_number_at_def)
    from match_unsigned_sound [OF this] Cons True show ?thesis
      by (simp add: number_parts_def lit_text_def)
  next
    case False
    with assms Cons have "match_unsigned [] s = Some l"
      by (auto simp: match_number_at_def split: option.splits if_splits)
    then show ?thesis by (rule plain)
  qed
qed


text \<open>A number at the start of a text is matched there, and in full.\<close>

lemma match_fraction_full:
  "fraction_part fr \<Longrightarrow> match_fraction (fr @ t) = fr @ takeWhile is_digit t"
  by (auto simp: fraction_part_def match_fraction_def digits1_takeWhile digits1_def)

lemma match_fraction_no_dot: "(\<And>r. s \<noteq> 46 # r) \<Longrightarrow> match_fraction s = []"
  by (cases s) (auto simp: match_fraction_def)

lemma match_exponent_full:
  assumes "exponent_part ex"
  shows "match_exponent (ex @ t) = ex @ takeWhile is_digit t"
proof -
  from assms obtain e sg ds where ex: "ex = e # sg @ ds" and e: "e = 101 \<or> e = 69"
    and sg: "sg = [] \<or> sg = [43] \<or> sg = [45]" and ds: "digits1 ds"
    by (auto simp: exponent_part_def)
  from ds obtain d r where d: "ds = d # r" "is_digit d"
    by (auto dest: digits1_hd)
  then have nosign: "d \<noteq> 43" "d \<noteq> 45"
    by auto
  have tw: "takeWhile is_digit (ds @ t) = ds @ takeWhile is_digit t"
    using ds by (rule digits1_takeWhile)
  from ds have ne: "ds \<noteq> []"
    by (simp add: digits1_def)
  from sg show ?thesis
  proof (elim disjE)
    assume "sg = []"
    with ex e d nosign tw [unfolded d] show ?thesis
      by (auto simp: match_exponent_def)
  next
    assume "sg = [43]"
    with ex e tw ne show ?thesis
      by (auto simp: match_exponent_def)
  next
    assume "sg = [45]"
    with ex e tw ne show ?thesis
      by (auto simp: match_exponent_def)
  qed
qed

lemma exponent_part_hd: "exponent_part ex \<Longrightarrow> \<exists>e r. ex = e # r \<and> (e = 101 \<or> e = 69)"
  by (auto simp: exponent_part_def)

lemma match_unsigned_full:
  assumes ip: "digits1 ip"
    and fr: "fr = [] \<or> fraction_part fr"
    and ex: "ex = [] \<or> exponent_part ex"
  shows "\<exists>l. match_unsigned sg (ip @ fr @ ex @ t) = Some l \<and> lit_sign l = sg
           \<and> length (ip @ fr @ ex) \<le> length (lit_int l @ lit_frac l @ lit_exp l)"
proof -
  let ?s = "ip @ fr @ ex @ t"
  have tw: "takeWhile is_digit (ip @ u) = ip @ takeWhile is_digit u"
    and dw: "dropWhile is_digit (ip @ u) = dropWhile is_digit u" for u
    using ip by (simp_all add: digits1_takeWhile digits1_dropWhile)
  from ip have ne: "takeWhile is_digit ?s \<noteq> []"
    by (simp add: tw digits1_def)
  define l where "l = \<lparr> lit_sign = sg, lit_int = takeWhile is_digit ?s,
    lit_frac = match_fraction (dropWhile is_digit ?s),
    lit_exp = match_exponent (drop (length (match_fraction (dropWhile is_digit ?s))) (dropWhile is_digit ?s)) \<rparr>"
  have m: "match_unsigned sg ?s = Some l"
    using ne by (simp add: match_unsigned_def Let_def l_def)
  have "length (ip @ fr @ ex) \<le> length (lit_int l @ lit_frac l @ lit_exp l)"
  proof (cases "fr = []")
    case True
    note fr_empty = this
    show ?thesis
    proof (cases "ex = []")
      case True
      with fr_empty show ?thesis
        by (simp add: l_def tw)
    next
      case False
      with ex have exp: "exponent_part ex"
        by simp
      then obtain e r where e: "ex = e # r" "e = 101 \<or> e = 69"
        using exponent_part_hd by blast
      then have "takeWhile is_digit (ex @ t) = []" and "dropWhile is_digit (ex @ t) = ex @ t"
        by auto
      moreover from e have "match_fraction (ex @ t) = []"
        by (intro match_fraction_no_dot) auto
      ultimately show ?thesis
        using fr_empty match_exponent_full [OF exp, of t]
        by (simp add: l_def tw dw)
    qed
  next
    case False
    with fr have frac: "fraction_part fr"
      by simp
    then obtain r where r: "fr = 46 # r"
      by (auto simp: fraction_part_def)
    then have t0: "takeWhile is_digit (fr @ u) = []" and d0: "dropWhile is_digit (fr @ u) = fr @ u" for u
      by auto
    have mf: "match_fraction (fr @ u) = fr @ takeWhile is_digit u" for u
      using frac by (rule match_fraction_full)
    show ?thesis
    proof (cases "ex = []")
      case True
      then show ?thesis
        by (simp add: l_def tw dw t0 d0 mf)
    next
      case False
      with ex have exp: "exponent_part ex"
        by simp
      then obtain e r' where e: "ex = e # r'" "e = 101 \<or> e = 69"
        using exponent_part_hd by blast
      then have "takeWhile is_digit (ex @ t) = []"
        by auto
      with mf [of "ex @ t"] have mf': "match_fraction (fr @ ex @ t) = fr"
        by simp
      show ?thesis
        using match_exponent_full [OF exp, of t]
        by (simp add: l_def tw dw t0 d0 mf')
    qed
  qed
  with m show ?thesis
    by (auto simp: l_def)
qed

lemma match_number_at_full:
  assumes "number_parts l"
  shows "\<exists>l'. match_number_at (lit_text l @ t) = Some l'
           \<and> length (lit_text l) \<le> length (lit_text l')"
proof -
  from assms have ip: "digits1 (lit_int l)"
    and fr: "lit_frac l = [] \<or> fraction_part (lit_frac l)"
    and ex: "lit_exp l = [] \<or> exponent_part (lit_exp l)"
    and sg: "lit_sign l = [] \<or> lit_sign l = [45]"
    by (simp_all add: number_parts_def)
  from ip obtain d r where d: "lit_int l = d # r" "is_digit d"
    by (auto dest: digits1_hd)
  from sg show ?thesis
  proof
    assume s0: "lit_sign l = []"
    from match_unsigned_full [OF ip fr ex, of "[]" t]
    obtain l' where "match_unsigned [] (lit_int l @ lit_frac l @ lit_exp l @ t) = Some l'"
      and "lit_sign l' = []"
      and "length (lit_int l @ lit_frac l @ lit_exp l) \<le> length (lit_int l' @ lit_frac l' @ lit_exp l')"
      by blast
    moreover from d have "d \<noteq> 45" by auto
    ultimately show ?thesis
      using s0 d by (auto simp: match_number_at_def lit_text_def)
  next
    assume s1: "lit_sign l = [45]"
    from match_unsigned_full [OF ip fr ex, of "[45]" t]
    obtain l' where "match_unsigned [45] (lit_int l @ lit_frac l @ lit_exp l @ t) = Some l'"
      and "lit_sign l' = [45]"
      and "length (lit_int l @ lit_frac l @ lit_exp l) \<le> length (lit_int l' @ lit_frac l' @ lit_exp l')"
      by blast
    then show ?thesis
      using s1 by (auto simp: match_number_at_def lit_text_def)
  qed
qed

text \<open>The search returns the match at the first position that has one.\<close>

lemma search_number_None:
  "search_number s = None \<Longrightarrow> s = pre @ rest \<Longrightarrow> match_number_at rest = None"
proof (induction s arbitrary: pre)
  case Nil
  then show ?case by (simp add: match_number_at_def)
next
  case (Cons c cs)
  from Cons.prems(1) have here: "match_number_at (c # cs) = None" and later: "search_number cs = None"
    by (auto split: option.splits)
  show ?case
  proof (cases pre)
    case Nil
    with Cons.prems(2) here show ?thesis by simp
  next
    case (Cons p pre')
    with Cons.prems(2) have "cs = pre' @ rest" by simp
    with later show ?thesis by (rule Cons.IH)
  qed
qed

lemma search_number_Some:
  "search_number s = Some l \<Longrightarrow>
   \<exists>pre post. s = pre @ lit_text l @ post \<and> match_number_at (lit_text l @ post) = Some l
     \<and> (\<forall>pre' rest. s = pre' @ rest \<and> length pre' < length pre \<longrightarrow> match_number_at rest = None)"
proof (induction s)
  case Nil
  then show ?case by simp
next
  case (Cons c cs)
  show ?case
  proof (cases "match_number_at (c # cs)")
    case (Some l')
    with Cons.prems have m: "match_number_at (c # cs) = Some l" by simp
    then obtain post where "c # cs = lit_text l @ post"
      using match_number_at_sound [OF m] by (auto simp: prefix_def)
    with m show ?thesis
      by (intro exI [of _ "[]"] exI [of _ post]) simp
  next
    case None
    with Cons.prems have "search_number cs = Some l" by simp
    from Cons.IH [OF this] obtain pre post where cs: "cs = pre @ lit_text l @ post"
      and m: "match_number_at (lit_text l @ post) = Some l"
      and first: "\<forall>pre' rest. cs = pre' @ rest \<and> length pre' < length pre \<longrightarrow> match_number_at rest = None"
      by blast
    have "match_number_at rest = None" if "c # cs = pre' @ rest" "length pre' < length (c # pre)" for pre' rest
    proof (cases pre')
      case Nil
      with that None show ?thesis by simp
    next
      case (Cons p q)
      with that have "cs = q @ rest" "length q < length pre" by simp_all
      with first show ?thesis by blast
    qed
    with cs m show ?thesis
      by (intro exI [of _ "c # pre"] exI [of _ post]) simp
  qed
qed

text \<open>The lines with the marker.\<close>

lemma match_ci_Some:
  "match_ci p s = Some r \<longleftrightarrow> (\<exists>fa. s = fa @ r \<and> map canonicalize fa = map canonicalize p)"
proof (induction p s rule: match_ci.induct)
  case (1 s)
  then show ?case by auto
next
  case (2 p ps)
  then show ?case by auto
next
  case (3 p ps c cs)
  show ?case
  proof (cases "canonicalize c = canonicalize p")
    case True
    have "(\<exists>fa. c # cs = fa @ r \<and> map canonicalize fa = map canonicalize (p # ps))
        \<longleftrightarrow> (\<exists>fa'. cs = fa' @ r \<and> map canonicalize fa' = map canonicalize ps)"
    proof
      assume "\<exists>fa. c # cs = fa @ r \<and> map canonicalize fa = map canonicalize (p # ps)"
      then obtain fa where fa: "c # cs = fa @ r" "map canonicalize fa = map canonicalize (p # ps)"
        by blast
      then obtain a fa' where "fa = a # fa'"
        by (cases fa) auto
      with fa show "\<exists>fa'. cs = fa' @ r \<and> map canonicalize fa' = map canonicalize ps"
        by auto
    next
      assume "\<exists>fa'. cs = fa' @ r \<and> map canonicalize fa' = map canonicalize ps"
      then obtain fa' where "cs = fa' @ r" "map canonicalize fa' = map canonicalize ps"
        by blast
      with True show "\<exists>fa. c # cs = fa @ r \<and> map canonicalize fa = map canonicalize (p # ps)"
        by (intro exI [of _ "c # fa'"]) simp
    qed
    with True 3 show ?thesis by simp
  next
    case False
    have "\<not> (\<exists>fa. c # cs = fa @ r \<and> map canonicalize fa = map canonicalize (p # ps))"
    proof
      assume "\<exists>fa. c # cs = fa @ r \<and> map canonicalize fa = map canonicalize (p # ps)"
      then obtain fa where fa: "c # cs = fa @ r" "map canonicalize fa = map canonicalize (p # ps)"
        by blast
      then obtain a fa' where "fa = a # fa'"
        by (cases fa) auto
      with fa False show False by auto
    qed
    with False show ?thesis by simp
  qed
qed

lemma canonical_marker: "map canonicalize (js ''Final Answer'') = js ''FINAL ANSWER''"
  by (simp add: js_simps canonicalize_def)

lemma canonicalize_F: "canonicalize c = 70 \<Longrightarrow> \<not> is_space c"
  by (auto simp: canonicalize_def is_space_def split: if_splits)

lemma is_final_answer_line_iff: "is_final_answer_line l \<longleftrightarrow> marker_line l"
proof
  assume "is_final_answer_line l"
  then obtain r where r: "match_ci (js ''Final Answer'') (dropWhile is_space l) = Some r"
    and colon: "\<exists>rest. dropWhile is_space r = 58 # rest"
    by (auto simp: is_final_answer_line_def split: option.splits list.splits)
  from r obtain fa where fa: "dropWhile is_space l = fa @ r" "map canonicalize fa = js ''FINAL ANSWER''"
    by (auto simp: match_ci_Some canonical_marker)
  from colon obtain rest where rest: "dropWhile is_space r = 58 # rest"
    by blast
  have "l = takeWhile is_space l @ dropWhile is_space l"
    by simp
  also have "dropWhile is_space l = fa @ takeWhile is_space r @ dropWhile is_space r"
    using fa by simp
  finally have "l = takeWhile is_space l @ fa @ takeWhile is_space r @ 58 # rest"
    using rest by simp
  moreover have "list_all is_space (takeWhile is_space l)" "list_all is_space (takeWhile is_space r)"
    by (auto simp: list_all_iff dest: set_takeWhileD)
  ultimately show "marker_line l"
    using fa(2) unfolding marker_line_def by blast
next
  assume "marker_line l"
  then obtain ws fa ws' rest where l: "l = ws @ fa @ ws' @ 58 # rest"
    and ws: "list_all is_space ws" "list_all is_space ws'"
    and fa: "map canonicalize fa = js ''FINAL ANSWER''"
    unfolding marker_line_def by blast
  from fa obtain a fa' where a: "fa = a # fa'" "canonicalize a = 70"
    by (cases fa) (auto simp: js_simps)
  then have "\<not> is_space a"
    by (simp add: canonicalize_F)
  with ws(1) a have "dropWhile is_space l = fa @ ws' @ 58 # rest"
    unfolding l by (simp add: list_all_iff dropWhile_append2)
  moreover have "match_ci (js ''Final Answer'') (fa @ ws' @ 58 # rest) = Some (ws' @ 58 # rest)"
    using fa by (subst match_ci_Some) (auto simp: canonical_marker)
  moreover have "dropWhile is_space (ws' @ 58 # rest) = 58 # rest"
    using ws(2) by (simp add: list_all_iff dropWhile_append2 is_space_def)
  ultimately show "is_final_answer_line l"
    by (simp add: is_final_answer_line_def)
qed

lemma marker_line_nonempty: "marker_line l \<Longrightarrow> l \<noteq> []"
  by (auto simp: marker_line_def)

lemma find_marker_line: "find is_final_answer_line ls = find marker_line ls"
  by (induction ls) (simp_all add: is_final_answer_line_iff)

lemma Number_js_finite:
  "(case Number_js l of Num v \<Rightarrow> Some v | _ \<Rightarrow> None) =
   (if \<bar>literal_value l\<bar> < overflow_threshold then Some (literal_value l) else None)"
proof -
  have "0 < overflow_threshold"
    by (simp add: overflow_threshold_def)
  then show ?thesis
    by (auto simp: Number_js_def Let_def)
qed

lemma extractFinalNumeric_scope:
  "extractFinalNumeric text =
     (let scope = (case find marker_line (split_lines [] text) of None \<Rightarrow> text | Some l \<Rightarrow> l)
      in case search_number (filter (\<lambda>c. c \<noteq> 44) scope) of
           None \<Rightarrow> None
         | Some l \<Rightarrow>
             if \<bar>literal_value l\<bar> < overflow_threshold then Some (literal_value l) else None)"
proof (cases "text = []")
  case True
  then show ?thesis
    by (simp add: extractFinalNumeric_def find_marker_line [symmetric] is_final_answer_line_def
        js_simps)
next
  case False
  have "(case find marker_line ls of None \<Rightarrow> text | Some l \<Rightarrow> if l = [] then text else l) =
        (case find marker_line ls of None \<Rightarrow> text | Some l \<Rightarrow> l)" for ls
  proof (cases "find marker_line ls")
    case None
    then show ?thesis by simp
  next
    case (Some l)
    then have "marker_line l"
      by (auto simp: find_Some_iff)
    then have "l \<noteq> []"
      by (rule marker_line_nonempty)
    with Some show ?thesis by simp
  qed
  with False show ?thesis
    by (simp add: extractFinalNumeric_def find_marker_line Let_def Number_js_finite
        cong: option.case_cong)
qed


lemma search_number_None_iff:
  "search_number s = None \<longleftrightarrow> \<not> (\<exists>pre m post. s = pre @ m @ post \<and> number_text m)"
proof
  assume none: "search_number s = None"
  show "\<not> (\<exists>pre m post. s = pre @ m @ post \<and> number_text m)"
  proof
    assume "\<exists>pre m post. s = pre @ m @ post \<and> number_text m"
    then obtain pre l0 post where s: "s = pre @ lit_text l0 @ post" and l0: "number_parts l0"
      by (auto simp: number_text_def)
    from match_number_at_full [OF l0, of post] obtain l'
      where "match_number_at (lit_text l0 @ post) = Some l'"
      by blast
    with search_number_None [OF none s] show False
      by simp
  qed
next
  assume no: "\<not> (\<exists>pre m post. s = pre @ m @ post \<and> number_text m)"
  show "search_number s = None"
  proof (rule ccontr)
    assume "search_number s \<noteq> None"
    then obtain l where l: "search_number s = Some l"
      by auto
    from search_number_Some [OF l] obtain pre post
      where s: "s = pre @ lit_text l @ post" and m: "match_number_at (lit_text l @ post) = Some l"
      by blast
    from match_number_at_sound [OF m] have "number_text (lit_text l)"
      by (auto simp: number_text_def)
    with s no show False
      by blast
  qed
qed

lemma search_number_leftmost_longest:
  assumes l: "search_number s = Some l"
  shows "number_parts l \<and> (\<exists>pre post. s = pre @ lit_text l @ post \<and>
           (\<forall>pre' m post'. s = pre' @ m @ post' \<and> number_text m \<longrightarrow>
              length pre \<le> length pre'
              \<and> (length pre' = length pre \<longrightarrow> length m \<le> length (lit_text l))))"
proof -
  from search_number_Some [OF l] obtain pre post
    where s: "s = pre @ lit_text l @ post" and m: "match_number_at (lit_text l @ post) = Some l"
      and first: "\<And>pre' rest. s = pre' @ rest \<Longrightarrow> length pre' < length pre \<Longrightarrow> match_number_at rest = None"
    by blast
  from match_number_at_sound [OF m] have parts: "number_parts l"
    by simp
  have "length pre \<le> length pre' \<and> (length pre' = length pre \<longrightarrow> length m' \<le> length (lit_text l))"
    if s': "s = pre' @ m' @ post'" and m': "number_text m'" for pre' m' post'
  proof -
    from m' obtain l0 where l0: "number_parts l0" "m' = lit_text l0"
      by (auto simp: number_text_def)
    from match_number_at_full [OF l0(1), of post'] l0(2) obtain l'
      where l': "match_number_at (m' @ post') = Some l'" "length m' \<le> length (lit_text l')"
      by auto
    have le: "length pre \<le> length pre'"
    proof (rule ccontr)
      assume "\<not> length pre \<le> length pre'"
      then have "match_number_at (m' @ post') = None"
        using first [OF s'] by simp
      with l' show False by simp
    qed
    moreover have "length m' \<le> length (lit_text l)" if "length pre' = length pre"
    proof -
      from s s' that have "m' @ post' = lit_text l @ post"
        by simp
      with l' m show ?thesis by simp
    qed
    ultimately show ?thesis by simp
  qed
  with parts s show ?thesis
    by blast
qed

lemmas matcher_eval =
  js_simps is_final_answer_line_def is_space_def is_digit_def canonicalize_def
  match_number_at_def match_unsigned_def match_fraction_def match_exponent_def
  literal_value_def digits_value_def exponent_value_def scale10_def overflow_threshold_def
  Number_js_def Let_def

lemma example_line_value:
  "find marker_line (split_lines [] text) = Some (js ''Final Answer: 1,234.5 J'') \<Longrightarrow>
   extractFinalNumeric text = Some 1234.5"
  by (simp add: extractFinalNumeric_scope matcher_eval)

text \<open>
  C4. The extractor splits the text into lines and takes as its scope the first line that
  starts, after optional white space and whatever the case of the letters, with
  \<open>Final Answer\<close>, optional white space and a colon; without such a line the scope is
  the whole text. With the commas removed from the scope, the result is null when no part
  of it is a number (sign, digits, optional fraction, optional exponent); otherwise the
  match is the number that starts leftmost, taken as long as it can be, and the result is
  its value, or null when that value is not finite. A text whose first marked line is
  \<open>Final Answer: 1,234.5 J\<close> yields 1234.5.
\<close>

theorem extractFinalNumeric_spec:
  "extractFinalNumeric text =
     (let scope = (case find marker_line (split_lines [] text) of None \<Rightarrow> text | Some l \<Rightarrow> l)
      in case search_number (filter (\<lambda>c. c \<noteq> 44) scope) of
           None \<Rightarrow> None
         | Some l \<Rightarrow>
             if \<bar>literal_value l\<bar> < overflow_threshold then Some (literal_value l) else None)
   \<and> (search_number s = None \<longleftrightarrow> \<not> (\<exists>pre m post. s = pre @ m @ post \<and> number_text m))
   \<and> (\<forall>l. search_number s = Some l \<longrightarrow>
          number_parts l \<and> (\<exists>pre post. s = pre @ lit_text l @ post \<and>
            (\<forall>pre' m post'. s = pre' @ m @ post' \<and> number_text m \<longrightarrow>
               length pre \<le> length pre'
               \<and> (length pre' = length pre \<longrightarrow> length m \<le> length (lit_text l)))))
   \<and> (find marker_line (split_lines [] text) = Some (js ''Final Answer: 1,234.5 J'') \<longrightarrow>
          extractFinalNumeric text = Some 1234.5)"
  using extractFinalNumeric_scope [of "text"] search_number_None_iff [of s]
    search_number_leftmost_longest [of s] example_line_value [of "text"]
  by blast

theorem extractFinalNumeric_spec_witness:
  "extractFinalNumeric (js ''Step 1...\<newline>Final Answer: 1,234.5 J'') = Some 1234.5"
proof -
  have "find marker_line (split_lines [] (js ''Step 1...\<newline>Final Answer: 1,234.5 J'')) =
      Some (js ''Final Answer: 1,234.5 J'')"
    unfolding find_marker_line [symmetric] by (simp add: matcher_eval)
  with extractFinalNumeric_spec [of "js ''Step 1...\<newline>Final Answer: 1,234.5 J''" "[]"]
  show ?thesis
    by blast
qed

text \<open>
  A line \<open>Final Answer : 7\<close> (a space before the colon) is selected by the code, though
  it does not start with \<open>Final Answer:\<close>; and a number too large for a double gives
  null, not infinity.
\<close>

theorem extractFinalNumeric_colon_counterexample:
  "extractFinalNumeric (js ''3 apples\<newline>Final Answer : 7'') = Some 7
   \<and> claimed_extract (js ''3 apples\<newline>Final Answer : 7'') = Some (Num 3)
   \<and> extractFinalNumeric (js ''Final Answer: 1e309'') = None
   \<and> claimed_extract (js ''Final Answer: 1e309'') = Some PosInfinity"
  by (simp add: extractFinalNumeric_def claimed_extract_def claimed_final_answer_line_def matcher_eval)

subsection \<open>The prompt builders\<close>

lemma last_line_append: "10 \<notin> set l \<Longrightarrow> last_line (xs @ 10 # l) = l"
proof -
  assume "10 \<notin> set l"
  then have "takeWhile (\<lambda>c. c \<noteq> 10) (rev l) = rev l"
    by auto
  then have "takeWhile (\<lambda>c. c \<noteq> 10) (rev l @ 10 # rev xs) = rev l"
    by (simp add: takeWhile_tail)
  then show ?thesis
    by (simp add: last_line_def)
qed

lemma linear_format_line:
  \<open>js ''Output format: first show key formulas and steps, then a single final line starting with "Final Answer:" followed by the numeric value and units.'' =
   js ''Output format: first show key formulas and steps, '' @ final_answer_instruction\<close>
  by (simp add: js_def final_answer_instruction_def)

lemma septagon_format_line:
  \<open>js ''Output format: first map nodes to formulas, then show reasoning steps, then a single final line starting with "Final Answer:" followed by the numeric value and units.'' =
   js ''Output format: first map nodes to formulas, then show reasoning steps, '' @ final_answer_instruction\<close>
  by (simp add: js_def final_answer_instruction_def)

lemma final_answer_instruction_one_line: "10 \<notin> set final_answer_instruction"
  by (simp add: js_simps final_answer_instruction_def)

lemma last_line_template3:
  "10 \<notin> set l \<Longrightarrow> last_line (a @ (b @ c @ js ''\<newline>'') @ l) = l"
  using last_line_append [of l "a @ b @ c"] by (simp add: js_simps)

lemma last_line_template4:
  "10 \<notin> set l \<Longrightarrow> last_line (a @ b @ (c @ js ''\<newline>'') @ l) = l"
  using last_line_append [of l "a @ b @ c"] by (simp add: js_simps)

lemma last_line_linear:
  "last_line (buildLinearPrompt p) =
   js ''Output format: first show key formulas and steps, '' @ final_answer_instruction"
proof -
  have "10 \<notin> set (js ''Output format: first show key formulas and steps, '' @ final_answer_instruction)"
    using final_answer_instruction_one_line by (simp add: js_simps)
  then show ?thesis
    unfolding buildLinearPrompt_def linear_format_line by (rule last_line_template3)
qed

lemma last_line_septagon:
  "last_line (buildSeptagonPrompt p) =
   js ''Output format: first map nodes to formulas, then show reasoning steps, '' @ final_answer_instruction"
proof -
  have "10 \<notin> set (js ''Output format: first map nodes to formulas, then show reasoning steps, '' @ final_answer_instruction)"
    using final_answer_instruction_one_line by (simp add: js_simps)
  then show ?thesis
    unfolding buildSeptagonPrompt_def septagon_format_line Let_def by (rule last_line_template4)
qed

text \<open>
  C6. For every problem, the linear prompt and the septagon prompt both contain the same
  instruction text for the \<open>Final Answer:\<close> line, \<open>final_answer_instruction\<close>: it closes the
  last line of either prompt, after the words of that template about the steps to show.
\<close>

theorem prompts_share_final_answer_instruction:
  "last_line (buildLinearPrompt p) =
     js ''Output format: first show key formulas and steps, '' @ final_answer_instruction
   \<and> last_line (buildSeptagonPrompt p) =
     js ''Output format: first map nodes to formulas, then show reasoning steps, '' @ final_answer_instruction"
  by (simp only: last_line_linear last_line_septagon simp_thms)

subsection \<open>The synthesizer\<close>
























subsection \<open>The trial loop\<close>

text \<open>The texts of the dry run, for the catalog.\<close>

lemma replicate_numeral_Cons: "replicate (numeral k) x = x # replicate (pred_numeral k) x"
  by (simp add: numeral_eq_Suc)

lemmas print_eval = replicate_numeral_Cons
  Number_toString_def Number_toString_pos_def frac_len.simps nat_digits.simps strip_zeros_def
  round_js_def Math_round_def Let_def js_simps

lemma print_expected:
  "Number_toString (expectedValue mechanics_a) = js ''5''"
  "Number_toString (expectedValue em_bfield) = js ''0.000012''"
  "Number_toString (expectedValue thermo_work) = js ''1728.5''"
  by (simp_all add: mechanics_a_def em_bfield_def thermo_work_def print_eval)

lemma print_offset:
  "Number_toString (round_js (expectedValue mechanics_a * 1.25) 3) = js ''6.25''"
  "Number_toString (round_js (expectedValue em_bfield * 1.25) 3) = js ''0''"
  "Number_toString (round_js (expectedValue thermo_work * 1.25) 3) = js ''2160.625''"
  by (simp_all add: mechanics_a_def em_bfield_def thermo_work_def print_eval)

lemma dry_answerText_catalog:
  "dry_answerText mechanics_a True = js ''...\<newline>Final Answer: 5 m/s^2''"
  "dry_answerText mechanics_a False = js ''...\<newline>Final Answer: 6.25 m/s^2''"
  "dry_answerText em_bfield True = js ''...\<newline>Final Answer: 0.000012 T''"
  "dry_answerText em_bfield False = js ''...\<newline>Final Answer: 0 T''"
  "dry_answerText thermo_work True = js ''...\<newline>Final Answer: 1728.5 J''"
  "dry_answerText thermo_work False = js ''...\<newline>Final Answer: 2160.625 J''"
  unfolding dry_answerText_def print_expected print_offset
  by (simp_all add: mechanics_a_def em_bfield_def thermo_work_def js_simps)

lemma extract_dry_answerText:
  "extractFinalNumeric (dry_answerText mechanics_a True) = Some 5"
  "extractFinalNumeric (dry_answerText mechanics_a False) = Some 6.25"
  "extractFinalNumeric (dry_answerText em_bfield True) = Some (12 / 10 ^ 6)"
  "extractFinalNumeric (dry_answerText em_bfield False) = Some 0"
  "extractFinalNumeric (dry_answerText thermo_work True) = Some 1728.5"
  "extractFinalNumeric (dry_answerText thermo_work False) = Some 2160.625"
  unfolding dry_answerText_catalog
  by (simp_all add: extractFinalNumeric_def matcher_eval)

lemma dry_run_consistent:
  assumes "p \<in> set problems"
  shows "isWithinTolerance (extractFinalNumeric (dry_answerText p flag)) (expectedValue p)
           (toleranceRatio p) = flag"
proof -
  from assms consider "p = mechanics_a" | "p = em_bfield" | "p = thermo_work"
    by (auto simp: problems_def)
  then show ?thesis
  proof cases
    case 1
    then show ?thesis
      by (cases flag) (simp_all add: extract_dry_answerText isWithinTolerance_def, simp_all add: mechanics_a_def)
  next
    case 2
    then show ?thesis
      by (cases flag) (simp_all add: extract_dry_answerText isWithinTolerance_def, simp_all add: em_bfield_def)
  next
    case 3
    then show ?thesis
      by (cases flag) (simp_all add: extract_dry_answerText isWithinTolerance_def, simp_all add: thermo_work_def)
  qed
qed

text \<open>The rows of a run, trial by trial.\<close>

lemma trial_loop_all:
  assumes "\<And>i w. P (Suc i) (fst (runTrial k rep d m p i w))"
  shows "list_all2 P [Suc i..<Suc i + n] (fst (trial_loop k rep d m p n i w))"
proof (induction n arbitrary: i w)
  case 0
  show ?case by simp
next
  case (Suc n)
  have "[Suc i..<Suc i + Suc n] = Suc i # [Suc (Suc i)..<Suc (Suc i) + n]"
    by (simp add: upt_conv_Cons)
  with assms [of i w] Suc [of "Suc i" "snd (runTrial k rep d m p i w)"] show ?case
    by (simp add: split_beta Let_def)
qed

lemma problem_loop_all:
  assumes "\<And>p i w. p \<in> set ps \<Longrightarrow> P p (Suc i) (fst (runTrial k rep d m p i w))"
  shows "list_all2 (\<lambda>(p, i) r. P p i r) (List.product ps [1..<Suc n])
           (fst (problem_loop k rep d m n ps w))"
  using assms
proof (induction ps arbitrary: w)
  case Nil
  show ?case by simp
next
  case (Cons p ps)
  have "list_all2 (P p) [Suc 0..<Suc 0 + n] (fst (trial_loop k rep d m p n 0 w))"
    by (rule trial_loop_all) (simp add: Cons.prems)
  then have first: "list_all2 (\<lambda>(p, i) r. P p i r) (map (Pair p) [1..<Suc n])
      (fst (trial_loop k rep d m p n 0 w))"
    by (simp add: list_all2_map1 del: upt_Suc)
  have rest: "list_all2 (\<lambda>(p, i) r. P p i r) (List.product ps [1..<Suc n])
      (fst (problem_loop k rep d m n ps (snd (trial_loop k rep d m p n 0 w))))"
    by (rule Cons.IH) (simp add: Cons.prems)
  have rows: "fst (problem_loop k rep d m n (p # ps) w) =
      fst (trial_loop k rep d m p n 0 w) @
      fst (problem_loop k rep d m n ps (snd (trial_loop k rep d m p n 0 w)))"
    by (simp add: split_beta Let_def)
  have plan: "List.product (p # ps) [1..<Suc n] = map (Pair p) [1..<Suc n] @ List.product ps [1..<Suc n]"
    by (simp del: upt_Suc)
  show ?case
    unfolding rows plan using first rest by (rule list_all2_appendI)
qed

lemma runTrials_all:
  assumes "\<And>p i w. p \<in> set problems \<Longrightarrow> P p (Suc i) (fst (runTrial k rep d m p i w))"
  shows "list_all2 (\<lambda>(p, i) r. P p i r) (trial_plan (nat n)) (fst (runTrials k rep n d m w))"
  unfolding trial_plan_def runTrials_def using assms by (rule problem_loop_all)

lemma runTrial_dry:
  "\<exists>flag lat stamp. fst (runTrial k rep True m p i w) =
     \<lparr> timestamp = stamp, problem_id = id_field p, topic = Problem.topic p,
       representation = rep, trial_index = Suc i, latency_sec = lat,
       numeric_answer = extractFinalNumeric (dry_answerText p flag),
       expected_value = expectedValue p, units = Problem.units p, correct = flag \<rparr>"
  by (simp add: runTrial_def Let_def split_beta)

text \<open>
  C1. In a dry run the row of every trial, for every problem of the catalog and whichever
  way the draw went, carries the numeric answer that the extractor finds in the synthesized
  text, and a flag equal to the verdict of the checker on that answer with the problem's
  expected value and tolerance. (The code stores the drawn flag; the text it makes up for
  that flag is one on which the checker gives the same verdict.)
\<close>

theorem dry_run_flag_is_checked:
  "list_all2
     (\<lambda>(p, i) r. problem_id r = id_field p \<and> trial_index r = i
        \<and> numeric_answer r = extractFinalNumeric (dry_answerText p (correct r))
        \<and> correct r = isWithinTolerance (numeric_answer r) (expectedValue p) (toleranceRatio p))
     (trial_plan (nat n)) (fst (runTrials k rep n True model w))"
proof (rule runTrials_all)
  fix p i w
  assume p: "p \<in> set problems"
  obtain flag lat stamp where "fst (runTrial k rep True model p i w) =
     \<lparr> timestamp = stamp, problem_id = id_field p, topic = Problem.topic p,
       representation = rep, trial_index = Suc i, latency_sec = lat,
       numeric_answer = extractFinalNumeric (dry_answerText p flag),
       expected_value = expectedValue p, units = Problem.units p, correct = flag \<rparr>"
    using runTrial_dry by blast
  then show "problem_id (fst (runTrial k rep True model p i w)) = id_field p
     \<and> trial_index (fst (runTrial k rep True model p i w)) = Suc i
     \<and> numeric_answer (fst (runTrial k rep True model p i w)) =
         extractFinalNumeric (dry_answerText p (correct (fst (runTrial k rep True model p i w))))
     \<and> correct (fst (runTrial k rep True model p i w)) =
         isWithinTolerance (numeric_answer (fst (runTrial k rep True model p i w)))
           (expectedValue p) (toleranceRatio p)"
    by (simp add: dry_run_consistent [OF p])
qed

lemmas run_eval =
  runTrials_def problems_def runTrial_def choose_prompt_def caught_text_def error_text_def
  callOpenAIChat_def Date_now_def synthesizeTrial_def randn_def Math_random_def baseline_def
  means_lookup_def means_def round_num_def row_latency_def
  still_world_def mixed_world_def failing_world_def

theorem dry_run_flag_is_checked_witness:
  "list_all2
     (\<lambda>(p, i) r. problem_id r = id_field p \<and> trial_index r = i
        \<and> numeric_answer r = extractFinalNumeric (dry_answerText p (correct r))
        \<and> correct r = isWithinTolerance (numeric_answer r) (expectedValue p) (toleranceRatio p))
     (trial_plan 1) (fst (runTrials [] (js ''linear'') 1 True (js ''gpt-4o-mini'') mixed_world))
   \<and> map correct (fst (runTrials [] (js ''linear'') 1 True (js ''gpt-4o-mini'') mixed_world)) =
       [True, False, False]"
proof -
  have "map correct (fst (runTrials [] (js ''linear'') 1 True (js ''gpt-4o-mini'') mixed_world)) =
      [True, False, False]"
    by (simp add: run_eval mechanics_a_def em_bfield_def thermo_work_def js_simps Let_def)
  with dry_run_flag_is_checked [of 1 "[]" "js ''linear''" "js ''gpt-4o-mini''" mixed_world]
  show ?thesis
    by simp
qed

text \<open>
  The agreement is a property of the catalog, not of the loop: for a problem whose expected
  value is 0, the text made up for an error reads \<open>Final Answer: 0\<close>, which the checker
  accepts, while the row keeps the drawn flag.
\<close>

lemma dry_run_outside_catalog:
  "isWithinTolerance (extractFinalNumeric (dry_answerText null_problem False))
     (expectedValue null_problem) (toleranceRatio null_problem)"
proof -
  have "dry_answerText null_problem False = js ''...\<newline>Final Answer: 0 m/s^2''"
    by (simp add: dry_answerText_def null_problem_def mechanics_a_def print_eval)
  moreover have "extractFinalNumeric (js ''...\<newline>Final Answer: 0 m/s^2'') = Some 0"
    by (simp add: extractFinalNumeric_def matcher_eval)
  ultimately show ?thesis
    by (simp add: isWithinTolerance_def null_problem_def)
qed

text \<open>Without a key no request is made, and the message of the exception is the answer text.\<close>

lemma extract_missing_key: "extractFinalNumeric (js ''Missing OPENAI_API_KEY'') = None"
  by (simp add: extractFinalNumeric_def matcher_eval)

lemma missing_key_text:
  "caught_text (Inl (JsError name (js ''Missing OPENAI_API_KEY''))) = js ''Missing OPENAI_API_KEY''"
  by (simp add: caught_text_def error_text_def js_def)

lemma runTrial_no_key:
  "problem_id (fst (runTrial [] rep False m p i w)) = id_field p
   \<and> trial_index (fst (runTrial [] rep False m p i w)) = Suc i
   \<and> numeric_answer (fst (runTrial [] rep False m p i w)) = None
   \<and> \<not> correct (fst (runTrial [] rep False m p i w))"
  unfolding runTrial_def callOpenAIChat_def
  by (simp add: Let_def split_beta missing_key_text extract_missing_key isWithinTolerance_def)

lemma runTrial_no_key_world: "responses (snd (runTrial [] rep False m p i w)) = responses w"
  by (simp add: runTrial_def callOpenAIChat_def Date_now_def Let_def split_beta)

lemma trial_loop_no_key_world: "responses (snd (trial_loop [] rep False m p n i w)) = responses w"
  by (induction n arbitrary: i w) (simp_all add: split_beta Let_def runTrial_no_key_world)

lemma problem_loop_no_key_world: "responses (snd (problem_loop [] rep False m n ps w)) = responses w"
  by (induction ps arbitrary: w) (simp_all add: split_beta Let_def trial_loop_no_key_world)

text \<open>
  A live run without a key: every planned trial is carried out and gets a row, with no
  numeric answer and the flag false, and no request reaches the service.
\<close>

lemma missing_key_rows:
  "list_all2
     (\<lambda>(p, i) r. problem_id r = id_field p \<and> trial_index r = i
        \<and> numeric_answer r = None \<and> \<not> correct r)
     (trial_plan (nat n)) (fst (runTrials [] rep n False model w))
   \<and> responses (snd (runTrials [] rep n False model w)) = responses w"
proof -
  have "list_all2
     (\<lambda>(p, i) r. problem_id r = id_field p \<and> trial_index r = i
        \<and> numeric_answer r = None \<and> \<not> correct r)
     (trial_plan (nat n)) (fst (runTrials [] rep n False model w))"
    by (rule runTrials_all) (rule runTrial_no_key)
  then show ?thesis
    by (simp add: runTrials_def problem_loop_no_key_world)
qed

text \<open>
  C2. A live run without a key should fail as a whole, before any trial, and the guard of
  \<open>callOpenAIChat\<close> is there for that: it throws \<open>Missing OPENAI_API_KEY\<close>. The code does
  not get there. The call is inside the \<open>try\<close> of the loop, whose \<open>catch\<close> takes every
  exception for an answer of the service, so the exception never leaves \<open>runTrials\<close>: the
  run of two trials per problem without a key returns its six rows, each with no numeric
  answer and the flag false, instead of failing.
\<close>

theorem missing_key_run_completes:
  "map (\<lambda>r. (problem_id r, trial_index r, numeric_answer r, correct r))
     (fst (runTrials [] (js ''linear'') 2 False (js ''gpt-4o-mini'') still_world)) =
   [(js ''mechanics_a'', 1, None, False), (js ''mechanics_a'', 2, None, False),
    (js ''em_bfield'', 1, None, False), (js ''em_bfield'', 2, None, False),
    (js ''thermo_work'', 1, None, False), (js ''thermo_work'', 2, None, False)]"
proof -
  have "list_all2
     (\<lambda>(p, i) r. (problem_id r, trial_index r, numeric_answer r, correct r) = (id_field p, i, None, False))
     (trial_plan (nat 2)) (fst (runTrials [] (js ''linear'') 2 False (js ''gpt-4o-mini'') still_world))"
    by (rule runTrials_all) (simp add: runTrial_no_key)
  then have "map (\<lambda>r. (problem_id r, trial_index r, numeric_answer r, correct r))
     (fst (runTrials [] (js ''linear'') 2 False (js ''gpt-4o-mini'') still_world)) =
     map (\<lambda>(p, i). (id_field p, i, None, False)) (trial_plan (nat 2))"
    by (induction rule: list_all2_induct) auto
  also have "\<dots> = [(js ''mechanics_a'', 1, None, False), (js ''mechanics_a'', 2, None, False),
    (js ''em_bfield'', 1, None, False), (js ''em_bfield'', 2, None, False),
    (js ''thermo_work'', 1, None, False), (js ''thermo_work'', 2, None, False)]"
    by (simp add: trial_plan_def problems_def mechanics_a_def em_bfield_def thermo_work_def
        upt_conv_Cons)
  finally show ?thesis .
qed

text \<open>With a key, each trial takes the next answer of the service, whatever it is.\<close>

lemma runTrial_live:
  assumes "k \<noteq> []"
  shows "live_row rep m ((p, Suc i), shd (responses w)) (fst (runTrial k rep False m p i w))"
    and "responses (snd (runTrial k rep False m p i w)) = stl (responses w)"
  using assms
  by (simp_all add: live_row_def runTrial_def callOpenAIChat_def Date_now_def Let_def split_beta)

lemma trial_loop_live:
  assumes "k \<noteq> []"
  shows "list_all2 (live_row rep m) (zip (map (Pair p) [Suc i..<Suc i + n]) (stake n (responses w)))
           (fst (trial_loop k rep False m p n i w))
         \<and> responses (snd (trial_loop k rep False m p n i w)) = sdrop n (responses w)"
proof (induction n arbitrary: i w)
  case 0
  show ?case by simp
next
  case (Suc n)
  let ?w1 = "snd (runTrial k rep False m p i w)"
  have range: "[Suc i..<Suc i + Suc n] = Suc i # [Suc (Suc i)..<Suc (Suc i) + n]"
    by (simp add: upt_conv_Cons)
  have rows: "fst (trial_loop k rep False m p (Suc n) i w) =
      fst (runTrial k rep False m p i w) # fst (trial_loop k rep False m p n (Suc i) ?w1)"
    and world: "snd (trial_loop k rep False m p (Suc n) i w) = snd (trial_loop k rep False m p n (Suc i) ?w1)"
    by (simp_all add: split_beta Let_def)
  from Suc [of "Suc i" ?w1] runTrial_live [OF assms, of rep m p i w]
  show ?case
    unfolding rows world range by simp
qed

lemma problem_loop_live:
  assumes "k \<noteq> []"
  shows "list_all2 (live_row rep m)
           (zip (List.product ps [1..<Suc n]) (stake (length ps * n) (responses w)))
           (fst (problem_loop k rep False m n ps w))
         \<and> responses (snd (problem_loop k rep False m n ps w)) = sdrop (length ps * n) (responses w)"
proof (induction ps arbitrary: w)
  case Nil
  show ?case by simp
next
  case (Cons p ps)
  let ?w1 = "snd (trial_loop k rep False m p n 0 w)"
  from trial_loop_live [OF assms, of rep m p 0 n w]
  have first: "list_all2 (live_row rep m) (zip (map (Pair p) [1..<Suc n]) (stake n (responses w)))
      (fst (trial_loop k rep False m p n 0 w))"
    and w1: "responses ?w1 = sdrop n (responses w)"
    by (simp_all del: upt_Suc)
  from Cons [of ?w1]
  have rest: "list_all2 (live_row rep m)
      (zip (List.product ps [1..<Suc n]) (stake (length ps * n) (sdrop n (responses w))))
      (fst (problem_loop k rep False m n ps ?w1))"
    and w2: "responses (snd (problem_loop k rep False m n ps ?w1)) = sdrop (length ps * n) (sdrop n (responses w))"
    by (simp_all add: w1)
  have rows: "fst (problem_loop k rep False m n (p # ps) w) =
      fst (trial_loop k rep False m p n 0 w) @ fst (problem_loop k rep False m n ps ?w1)"
    and world: "snd (problem_loop k rep False m n (p # ps) w) = snd (problem_loop k rep False m n ps ?w1)"
    by (simp_all add: split_beta Let_def)
  have plan: "zip (List.product (p # ps) [1..<Suc n]) (stake (length (p # ps) * n) (responses w)) =
      zip (map (Pair p) [1..<Suc n]) (stake n (responses w)) @
      zip (List.product ps [1..<Suc n]) (stake (length ps * n) (sdrop n (responses w)))"
  proof -
    have "stake (length (p # ps) * n) (responses w) =
        stake n (responses w) @ stake (length ps * n) (sdrop n (responses w))"
      by (simp add: stake_add)
    moreover have "List.product (p # ps) [1..<Suc n] = map (Pair p) [1..<Suc n] @ List.product ps [1..<Suc n]"
      by (simp del: upt_Suc)
    moreover have "length (map (Pair p) [1..<Suc n]) = length (stake n (responses w))"
      by simp
    ultimately show ?thesis
      by (simp only: zip_append)
  qed
  have "sdrop (length ps * n) (sdrop n (responses w)) = sdrop (length (p # ps) * n) (responses w)"
    by (simp add: sdrop_add add.commute)
  with w2 have "responses (snd (problem_loop k rep False m n (p # ps) w)) =
      sdrop (length (p # ps) * n) (responses w)"
    by (simp only: world)
  moreover have "list_all2 (live_row rep m)
      (zip (List.product (p # ps) [1..<Suc n]) (stake (length (p # ps) * n) (responses w)))
      (fst (problem_loop k rep False m n (p # ps) w))"
    unfolding rows plan using first rest by (rule list_all2_appendI)
  ultimately show ?case
    by simp
qed

text \<open>
  C7. In a live run with a key, the rows are those of all the planned trials, in order, and
  the row of each trial is made from the answer of the service to its request: when the
  request fails, the text of the exception is the answer text, the extractor and the
  checker score it as any other text, and the trials after it are carried out just the same.
\<close>

theorem service_failure_recorded:
  assumes "OPENAI_API_KEY \<noteq> []"
  shows "list_all2 (live_row rep model)
           (zip (trial_plan (nat n)) (stake (length (trial_plan (nat n))) (responses w)))
           (fst (runTrials OPENAI_API_KEY rep n False model w))
         \<and> length (fst (runTrials OPENAI_API_KEY rep n False model w)) = length problems * nat n
         \<and> caught_text (Inl e) = error_text e"
proof -
  have len: "length (trial_plan (nat n)) = length problems * nat n"
    by (simp add: trial_plan_def del: upt_Suc)
  from problem_loop_live [OF assms, of rep model problems "nat n" w]
  have all: "list_all2 (live_row rep model)
      (zip (trial_plan (nat n)) (stake (length (trial_plan (nat n))) (responses w)))
      (fst (runTrials OPENAI_API_KEY rep n False model w))"
    by (simp only: trial_plan_def runTrials_def len [unfolded trial_plan_def])
  from list_all2_lengthD [OF all]
  have "length (fst (runTrials OPENAI_API_KEY rep n False model w)) = length (trial_plan (nat n))"
    by simp
  with all len show ?thesis
    by (simp add: caught_text_def)
qed

lemma live_row_fields:
  "live_row rep model planned r \<Longrightarrow>
   (problem_id r, trial_index r, numeric_answer r, correct r) =
   (let p = fst (fst planned);
        numeric = extractFinalNumeric (caught_text (snd planned model (choose_prompt rep p)))
    in (id_field p, snd (fst planned), numeric,
        isWithinTolerance numeric (expectedValue p) (toleranceRatio p)))"
  by (simp add: live_row_def Let_def)

lemma error_text_literal: "error_text (JsError name (js (c # cs))) = js (c # cs)"
  by (simp add: error_text_def js_def)

lemma extract_replies:
  "extractFinalNumeric (js ''a = F / m\<newline>Final Answer: 5 m/s^2'') = Some 5"
  "extractFinalNumeric (js ''OpenAI API error 429: rate limited'') = Some 429"
  "extractFinalNumeric (js ''Final Answer: 1,728.5 J'') = Some 1728.5"
  by (simp_all add: extractFinalNumeric_def matcher_eval)

theorem service_failure_recorded_witness:
  "map (\<lambda>r. (problem_id r, trial_index r, numeric_answer r, correct r))
     (fst (runTrials (js ''sk-test'') (js ''septagon'') 1 False (js ''gpt-4o-mini'') failing_world)) =
   [(js ''mechanics_a'', 1, Some 5, True),
    (js ''em_bfield'', 1, Some 429, False),
    (js ''thermo_work'', 1, Some 1728.5, True)]"
proof -
  let ?rows = "fst (runTrials (js ''sk-test'') (js ''septagon'') 1 False (js ''gpt-4o-mini'') failing_world)"
  let ?planned = "zip (trial_plan (nat 1)) (stake (length (trial_plan (nat 1))) (responses failing_world))"
  let ?fields = "\<lambda>planned.
     (let p = fst (fst planned);
          numeric = extractFinalNumeric (caught_text (snd planned (js ''gpt-4o-mini'') (choose_prompt (js ''septagon'') p)))
      in (id_field p, snd (fst planned), numeric,
          isWithinTolerance numeric (expectedValue p) (toleranceRatio p)))"
  have key: "js ''sk-test'' \<noteq> []"
    by (simp add: js_def)
  from service_failure_recorded [OF key, of "js ''septagon''" "js ''gpt-4o-mini''" 1 failing_world]
  have "list_all2 (live_row (js ''septagon'') (js ''gpt-4o-mini'')) ?planned ?rows"
    by simp
  then have "map (\<lambda>r. (problem_id r, trial_index r, numeric_answer r, correct r)) ?rows =
      map ?fields ?planned"
    by (induction rule: list_all2_induct) (simp_all add: live_row_fields)
  also have "?planned =
      [((mechanics_a, 1), \<lambda>model prompt. Inr (js ''a = F / m\<newline>Final Answer: 5 m/s^2'')),
       ((em_bfield, 1), \<lambda>model prompt. Inl (JsError (js ''Error'') (js ''OpenAI API error 429: rate limited''))),
       ((thermo_work, 1), \<lambda>model prompt. Inr (js ''Final Answer: 1,728.5 J''))]"
    by (simp add: trial_plan_def problems_def failing_world_def still_world_def)
  also have "map ?fields \<dots> =
      [(js ''mechanics_a'', 1, Some 5, True),
       (js ''em_bfield'', 1, Some 429, False),
       (js ''thermo_work'', 1, Some 1728.5, True)]"
    by (simp add: caught_text_def error_text_literal extract_replies isWithinTolerance_def)
      (simp add: mechanics_a_def em_bfield_def thermo_work_def)
  finally show ?thesis .
qed

subsection \<open>The aggregator\<close>

text \<open>The first loop leaves in the \<open>Map\<close> exactly \<open>grouped rows\<close>, and never throws.\<close>

lemma first_occurrences_snoc:
  "first_occurrences (xs @ [x]) =
     (if x \<in> set xs then first_occurrences xs else first_occurrences xs @ [x])"
  by (simp add: first_occurrences_def)

lemma set_first_occurrences [simp]: "set (first_occurrences xs) = set xs"
  by (simp add: first_occurrences_def)

lemma distinct_first_occurrences [simp]: "distinct (first_occurrences xs)"
  by (simp add: first_occurrences_def)

lemma update_tabulated_present:
  "k \<in> set ks \<Longrightarrow> distinct ks \<Longrightarrow>
   AList.update k v (map (\<lambda>x. (x, f x)) ks) = map (\<lambda>x. (x, if x = k then v else f x)) ks"
  by (induction ks) (auto simp: AList.update.simps)

lemma update_tabulated_absent:
  "k \<notin> set ks \<Longrightarrow>
   AList.update k v (map (\<lambda>x. (x, f x)) ks) = map (\<lambda>x. (x, f x)) ks @ [(k, v)]"
  by (induction ks) (auto simp: AList.update.simps)

lemma map_of_tabulated:
  "map_of (map (\<lambda>x. (x, f x)) ks) k = (if k \<in> set ks then Some (f k) else None)"
  by (induction ks) auto

lemma group_step_grouped: "group_step (grouped seen) r = Inr (grouped (seen @ [r]))"
proof (cases "key r \<in> set (map key seen)")
  case True
  then show ?thesis
    by (auto simp: group_step_def grouped_def map_of_tabulated first_occurrences_snoc
        update_tabulated_present Let_def)
next
  case False
  then have none: "filter (\<lambda>x. key x = key r) seen = []"
    by (induction seen) auto
  have "AList.update (key r) [r] (grouped seen @ [(key r, [])]) = grouped (seen @ [r])"
  proof -
    have "grouped seen @ [(key r, [])] =
        map (\<lambda>k. (k, filter (\<lambda>x. key x = k) seen)) (first_occurrences (map key seen) @ [key r])"
      by (simp add: grouped_def none)
    also have "AList.update (key r) [r] \<dots> =
        map (\<lambda>k. (k, if k = key r then [r] else filter (\<lambda>x. key x = k) seen))
          (first_occurrences (map key seen) @ [key r])"
      using False by (subst update_tabulated_present) auto
    also have "\<dots> = grouped (seen @ [r])"
      using False by (auto simp: grouped_def first_occurrences_snoc none)
    finally show ?thesis .
  qed
  moreover have m: "map_of (grouped seen) (key r) = None"
    using False by (simp add: grouped_def map_of_tabulated)
  moreover have "AList.update (key r) [] (grouped seen) = grouped seen @ [(key r, [])]"
    using False by (simp add: grouped_def update_tabulated_absent)
  moreover have "map_of (grouped seen @ [(key r, [])]) (key r) = Some []"
    using m by (simp add: map_add_def)
  ultimately show ?thesis
    by (simp add: group_step_def Let_def)
qed

lemma group_rows_grouped: "group_rows (grouped seen) rows = Inr (grouped (seen @ rows))"
proof (induction rows arbitrary: seen)
  case Nil
  show ?case by simp
next
  case (Cons r rows)
  show ?case
    using Cons.IH [of "seen @ [r]"] by (simp add: group_step_grouped)
qed

lemma aggregate_grouped: "aggregate rows = Inr (map summarize (grouped rows))"
proof -
  have "grouped ([] :: TrialRecord list) = []"
    by (simp add: grouped_def first_occurrences_def)
  then have "group_rows [] rows = Inr (grouped rows)"
    using group_rows_grouped [of "[]" rows] by simp
  then show ?thesis
    by (simp add: aggregate_def)
qed


lemma grouped_nonempty: "(k, arr) \<in> set (grouped rows) \<Longrightarrow> arr \<noteq> []"
  by (auto simp: grouped_def filter_empty_conv)

lemma summarize_defined:
  "arr \<noteq> [] \<Longrightarrow>
   1 \<le> trials (summarize (k, arr)) \<and> mean_latency_sec (summarize (k, arr)) \<noteq> NaN
     \<and> error_rate (summarize (k, arr)) \<noteq> NaN"
  by (cases arr) (simp_all add: summarize_def Let_def mean_latency_def err_rate_def)

lemma foldl_plus_sum_list: "foldl (+) a xs = a + sum_list (xs :: real list)"
  by (induction xs arbitrary: a) simp_all

lemma split_sep_no_sep: "\<not> has_sep q \<Longrightarrow> split_sep piece q = [piece @ q]"
  by (induction piece q rule: split_sep.induct) auto

lemma split_sep_first:
  "\<not> has_sep (p @ [95]) \<Longrightarrow> split_sep piece (p @ 95 # 95 # q) = (piece @ p) # split_sep [] q"
proof (induction p arbitrary: piece)
  case Nil
  show ?case by simp
next
  case (Cons a p)
  show ?case
  proof (cases p)
    case Nil
    with Cons.prems have "a \<noteq> 95" by simp
    with Nil show ?thesis by simp
  next
    case (Cons b p')
    with Cons.prems have "\<not> (a = 95 \<and> b = 95)" and "\<not> has_sep (p @ [95])"
      by simp_all
    with Cons Cons.IH [of "piece @ [a]"] show ?thesis by simp
  qed
qed

lemma split_sep_key:
  assumes "key_safe r"
  shows "split_sep [] (key r) = [problem_id r, representation r]"
proof -
  have "key r = problem_id r @ 95 # 95 # representation r"
    by (simp add: key_def js_def)
  with assms show ?thesis
    by (simp add: key_safe_def split_sep_first split_sep_no_sep)
qed

lemma key_eq_iff:
  assumes "key_safe r" and "key_safe r'"
  shows "key r = key r' \<longleftrightarrow> pair_of r = pair_of r'"
proof
  assume "key r = key r'"
  then have "split_sep [] (key r) = split_sep [] (key r')" by simp
  with assms show "pair_of r = pair_of r'"
    by (simp add: split_sep_key pair_of_def)
next
  assume "pair_of r = pair_of r'"
  then show "key r = key r'"
    by (simp add: pair_of_def key_def)
qed

lemma remdups_map_inj:
  "inj_on f (set xs) \<Longrightarrow> remdups (map f xs) = map f (remdups xs)"
  by (induction xs) (auto simp: inj_on_def)

lemma first_occurrences_map_inj:
  "inj_on f (set xs) \<Longrightarrow> first_occurrences (map f xs) = map f (first_occurrences xs)"
proof -
  assume "inj_on f (set xs)"
  then have "remdups (map f (rev xs)) = map f (remdups (rev xs))"
    by (intro remdups_map_inj) simp
  then show ?thesis
    by (simp add: first_occurrences_def rev_map)
qed

lemma summarize_safe:
  assumes safe: "\<forall>r \<in> set rows. key_safe r" and r: "r \<in> set rows"
  shows "summarize (key r, filter (\<lambda>x. key x = key r) rows) = group_summary rows (pair_of r)"
proof -
  have same: "filter (\<lambda>x. key x = key r) rows = filter (\<lambda>x. pair_of x = pair_of r) rows"
    using safe r by (intro filter_cong) (auto simp: key_eq_iff)
  from r have ne: "filter (\<lambda>x. pair_of x = pair_of r) rows \<noteq> []"
    by (auto simp: filter_empty_conv)
  have parts: "split_sep [] (key r) = [problem_id r, representation r]"
    using safe r by (simp add: split_sep_key)
  show ?thesis
    using ne
    by (simp add: summarize_def group_summary_def Let_def same parts element_def
        mean_latency_def err_rate_def foldl_plus_sum_list pair_of_def)
qed

lemma grouped_safe:
  assumes safe: "\<forall>r \<in> set rows. key_safe r"
  shows "map summarize (grouped rows) = aggregate_spec rows"
proof -
  have keys: "map key rows = map key_of (map pair_of rows)"
    by (simp add: key_of_def key_def pair_of_def)
  have "inj_on key_of (set (map pair_of rows))"
  proof (rule inj_onI)
    fix a b assume "a \<in> set (map pair_of rows)" "b \<in> set (map pair_of rows)" "key_of a = key_of b"
    then obtain r r' where "r \<in> set rows" "r' \<in> set rows" "a = pair_of r" "b = pair_of r'"
      "key r = key r'"
      by (auto simp: key_of_def key_def pair_of_def)
    with safe show "a = b"
      by (simp add: key_eq_iff)
  qed
  then have occ: "first_occurrences (map key rows) = map key_of (first_occurrences (map pair_of rows))"
    unfolding keys by (rule first_occurrences_map_inj)
  have "summarize (key_of pq, filter (\<lambda>x. key x = key_of pq) rows) = group_summary rows pq"
    if "pq \<in> set (map pair_of rows)" for pq
  proof -
    from that obtain r where r: "r \<in> set rows" and pq: "pq = pair_of r" by auto
    then have "key_of pq = key r"
      by (simp add: key_of_def key_def pair_of_def)
    with summarize_safe [OF safe r] pq show ?thesis by simp
  qed
  then show ?thesis
    by (simp add: grouped_def aggregate_spec_def occ)
qed

lemma remdups_const: "set xs = {x} \<Longrightarrow> remdups xs = [x]"
proof (induction xs)
  case Nil
  then show ?case by simp
next
  case (Cons a xs)
  then have a: "a = x" and sub: "set xs \<subseteq> {x}"
    by auto
  show ?case
  proof (cases "xs = []")
    case True
    with a show ?thesis by simp
  next
    case False
    with sub have "set xs = {x}"
      by (cases xs) auto
    with Cons.IH a show ?thesis by simp
  qed
qed


lemma key_pair_of: "key r = key_of (pair_of r)"
  by (simp add: key_of_def key_def pair_of_def)

lemma aggregate_one_group:
  assumes same: "\<forall>r \<in> set rows. pair_of r = pq" and ne: "rows \<noteq> []"
  shows "aggregate rows = Inr [summarize (key_of pq, rows)]"
proof -
  have k: "key r = key_of pq" if "r \<in> set rows" for r
    using same that by (simp add: key_pair_of)
  then have "set (rev (map key rows)) \<subseteq> {key_of pq}"
    by auto
  with ne have "set (rev (map key rows)) = {key_of pq}"
    by (cases rows) auto
  then have "remdups (rev (map key rows)) = [key_of pq]"
    by (rule remdups_const)
  then have occ: "first_occurrences (map key rows) = [key_of pq]"
    by (simp add: first_occurrences_def)
  have "filter (\<lambda>r. key r = key_of pq) rows = rows"
    by (rule filter_True) (use k in blast)
  with occ show ?thesis
    by (simp add: aggregate_grouped grouped_def)
qed

lemma trials_summarize: "trials (summarize (k, arr)) = length arr"
  by (simp add: summarize_def Let_def)

text \<open>
  C10. The aggregator is total: it never throws, on the empty sequence it returns the
  empty sequence, and every record it emits summarizes a group of at least one row, so
  that its trial count is at least 1 and neither quotient is NaN.
\<close>

theorem aggregate_total:
  "aggregate [] = Inr []
   \<and> (\<exists>aggs. aggregate rows = Inr aggs
         \<and> (\<forall>a \<in> set aggs. 1 \<le> trials a \<and> mean_latency_sec a \<noteq> NaN \<and> error_rate a \<noteq> NaN))"
proof -
  have "aggregate [] = Inr []"
    by (simp add: aggregate_def)
  moreover have "1 \<le> trials a \<and> mean_latency_sec a \<noteq> NaN \<and> error_rate a \<noteq> NaN"
    if "a \<in> set (map summarize (grouped rows))" for a
  proof -
    from that obtain k arr where "(k, arr) \<in> set (grouped rows)" and a: "a = summarize (k, arr)"
      by auto
    then have "arr \<noteq> []"
      by (simp add: grouped_nonempty)
    then show ?thesis
      unfolding a by (rule summarize_defined)
  qed
  ultimately show ?thesis
    by (simp add: aggregate_grouped)
qed

theorem aggregate_total_witness:
  "\<exists>aggs. aggregate [sample_row ''mechanics_a'' ''linear'' 21.3 True] = Inr aggs
      \<and> list_all (\<lambda>a. 1 \<le> trials a \<and> mean_latency_sec a \<noteq> NaN \<and> error_rate a \<noteq> NaN) aggs"
  using aggregate_total [of "[sample_row ''mechanics_a'' ''linear'' 21.3 True]"]
  by (auto simp: list_all_iff)

text \<open>
  C3. The aggregator groups by the string \<open>id__representation\<close>, and reads the two
  parts of its record back from that string. Where no identifier contains \<open>__\<close> or
  ends in \<open>_\<close> and no representation contains \<open>__\<close> (as for the catalog's identifiers
  and the two representations), this is grouping by the pair: the result has exactly one
  record for each distinct pair of problem identifier and representation, and the record
  of a pair carries the number of rows with that pair, their mean latency rounded to 2
  decimals, and 1 minus their fraction of correct rows rounded to 3 decimals.
\<close>

theorem aggregate_matches_spec:
  assumes "\<forall>r \<in> set rows. key_safe r"
  shows "aggregate rows = Inr (aggregate_spec rows)
         \<and> length (aggregate_spec rows) = card (pair_of ` set rows)"
proof -
  have "length (first_occurrences (map pair_of rows)) = card (set (map pair_of rows))"
    by (metis distinct_card distinct_first_occurrences set_first_occurrences)
  then have "length (aggregate_spec rows) = card (pair_of ` set rows)"
    by (simp add: aggregate_spec_def)
  with assms show ?thesis
    by (simp add: aggregate_grouped grouped_safe)
qed

theorem aggregate_matches_spec_witness:
  "aggregate [sample_row ''mechanics_a'' ''linear'' 21.3 True,
              sample_row ''em_bfield'' ''septagon'' 20 False,
              sample_row ''mechanics_a'' ''linear'' 18.125 False] =
   Inr [\<lparr> agg_problem_id = Some (js ''mechanics_a''), agg_topic = js ''Classical Mechanics'',
          agg_representation = Some (js ''linear''), trials = 2,
          mean_latency_sec = Num 19.71, error_rate = Num 0.5 \<rparr>,
        \<lparr> agg_problem_id = Some (js ''em_bfield''), agg_topic = js ''Classical Mechanics'',
          agg_representation = Some (js ''septagon''), trials = 1,
          mean_latency_sec = Num 20, error_rate = Num 1 \<rparr>]"
  (is "aggregate ?rows = Inr ?aggs")
proof -
  have safe: "\<forall>r \<in> set ?rows. key_safe r"
    by (simp add: key_safe_def sample_row_def js_simps)
  have "aggregate ?rows = Inr (aggregate_spec ?rows)"
    by (rule conjunct1 [OF aggregate_matches_spec [OF safe]])
  also have "aggregate_spec ?rows = ?aggs"
    by (simp add: sample_row_def js_simps aggregate_spec_def first_occurrences_def
        pair_of_def group_summary_def round_js_def Math_round_def)
  finally show ?thesis .
qed

text \<open>
  Without that condition two different pairs can share a key: the rows of
  \<open>(a__b, c)\<close> and \<open>(a, b__c)\<close> land in one group, reported under \<open>(a, b)\<close>.
\<close>

theorem aggregate_key_collision:
  "aggregate [sample_row ''a__b'' ''c'' 10 True, sample_row ''a'' ''b__c'' 20 False] =
   Inr [\<lparr> agg_problem_id = Some (js ''a''), agg_topic = js ''Classical Mechanics'',
          agg_representation = Some (js ''b''), trials = 2,
          mean_latency_sec = Num 15, error_rate = Num 0.5 \<rparr>]
   \<and> pair_of (sample_row ''a__b'' ''c'' 10 True) \<noteq> pair_of (sample_row ''a'' ''b__c'' 20 False)
   \<and> length (aggregate_spec [sample_row ''a__b'' ''c'' 10 True, sample_row ''a'' ''b__c'' 20 False]) = 2"
  by (simp add: aggregate_def group_step_def key_def sample_row_def js_simps aggregate_spec_def first_occurrences_def
      pair_of_def group_summary_def round_js_def Math_round_def summarize_def element_def mean_latency_def err_rate_def AList.update.simps)

text \<open>
  C9. The aggregator keeps no state between calls, so aggregating a sequence again gives
  the same records; and for two sequences whose rows all carry one pair of problem
  identifier and representation, each summary has at most one record, and the trial count
  in the summary of the concatenation is the sum of the trial counts in the two summaries
  (a sequence without rows counting 0).
\<close>

theorem aggregate_additive:
  assumes same: "\<forall>r \<in> set (xs @ ys). pair_of r = pq"
  shows "aggregate rows = aggregate rows
         \<and> (\<exists>ax ay axy. aggregate xs = Inr ax \<and> aggregate ys = Inr ay
               \<and> aggregate (xs @ ys) = Inr axy
               \<and> length ax \<le> 1 \<and> length ay \<le> 1 \<and> length axy \<le> 1
               \<and> sum_list (map trials ax) = length xs \<and> sum_list (map trials ay) = length ys
               \<and> sum_list (map trials axy) = sum_list (map trials ax) + sum_list (map trials ay))"
proof -
  have one: "\<exists>az. aggregate zs = Inr az \<and> length az \<le> 1 \<and> sum_list (map trials az) = length zs"
    if "\<forall>r \<in> set zs. pair_of r = pq" for zs
  proof (cases "zs = []")
    case True
    then show ?thesis
      by (simp add: aggregate_def)
  next
    case False
    with that have "aggregate zs = Inr [summarize (key_of pq, zs)]"
      by (rule aggregate_one_group)
    then show ?thesis
      by (simp add: trials_summarize)
  qed
  from same have "\<forall>r \<in> set xs. pair_of r = pq" and "\<forall>r \<in> set ys. pair_of r = pq"
    by auto
  then obtain ax ay where ax: "aggregate xs = Inr ax" "length ax \<le> 1" "sum_list (map trials ax) = length xs"
    and ay: "aggregate ys = Inr ay" "length ay \<le> 1" "sum_list (map trials ay) = length ys"
    using one by blast
  from one [OF same] obtain axy where axy: "aggregate (xs @ ys) = Inr axy" "length axy \<le> 1"
    "sum_list (map trials axy) = length (xs @ ys)"
    by blast
  from ax ay axy have "sum_list (map trials axy) = sum_list (map trials ax) + sum_list (map trials ay)"
    by simp
  with ax ay axy show ?thesis
    by blast
qed

theorem aggregate_additive_witness:
  "\<exists>a b c.
     aggregate [sample_row ''thermo_work'' ''septagon'' 19.6 True] = Inr [a]
     \<and> aggregate [sample_row ''thermo_work'' ''septagon'' 20.5 False,
                    sample_row ''thermo_work'' ''septagon'' 18.25 True] = Inr [b]
     \<and> aggregate [sample_row ''thermo_work'' ''septagon'' 19.6 True,
                    sample_row ''thermo_work'' ''septagon'' 20.5 False,
                    sample_row ''thermo_work'' ''septagon'' 18.25 True] = Inr [c]
     \<and> trials a = 1 \<and> trials b = 2 \<and> trials c = 3"
proof -
  let ?xs = "[sample_row ''thermo_work'' ''septagon'' 19.6 True]"
  let ?ys = "[sample_row ''thermo_work'' ''septagon'' 20.5 False,
              sample_row ''thermo_work'' ''septagon'' 18.25 True]"
  have same: "\<forall>r \<in> set (?xs @ ?ys). pair_of r = (js ''thermo_work'', js ''septagon'')"
    by (simp add: sample_row_def pair_of_def)
  from aggregate_additive [OF same] obtain ax ay axy
    where ax: "aggregate ?xs = Inr ax" "length ax \<le> 1" "sum_list (map trials ax) = length ?xs"
      and ay: "aggregate ?ys = Inr ay" "length ay \<le> 1" "sum_list (map trials ay) = length ?ys"
      and axy: "aggregate (?xs @ ?ys) = Inr axy" "length axy \<le> 1"
        "sum_list (map trials axy) = sum_list (map trials ax) + sum_list (map trials ay)"
    by blast
  have single: "\<exists>a. az = [a] \<and> trials a = n"
    if "length az \<le> 1" "sum_list (map trials az) = n" "0 < n" for az :: "AggregateRecord list" and n
    using that by (cases az) auto
  from single [OF ax(2,3)] obtain a where a: "ax = [a]" "trials a = 1"
    by auto
  from single [OF ay(2,3)] obtain b where b: "ay = [b]" "trials b = 2"
    by auto
  from axy(3) ax(3) ay(3) have "sum_list (map trials axy) = 3"
    by simp
  from single [OF axy(2) this] obtain c where c: "axy = [c]" "trials c = 3"
    by auto
  from ax(1) ay(1) axy(1) a b c show ?thesis
    by auto
qed

end
